theory Spec2Isabelle
  imports Main
begin

section \<open>Data model (the types of src/unnamed/part_000, imported as types/openapi)\<close>

text \<open>
  The OpenAPI document is parsed JSON. An optional field is an \<open>option\<close>.
  Strings are \<open>char\<close> lists (the bytes of the UTF-8 text).

  A JavaScript object used as a dictionary (\<open>Record<string, T>\<close>) is an
  association list with distinct keys, in the order in which the keys were created
  (for a parsed document, the order of its text). What JavaScript does with such
  an object is written out in the next section: a read \<open>obj[key]\<close> also finds
  the members inherited from \<open>Object.prototype\<close> (\<open>objGet\<close>); the enumeration
  by \<open>Object.entries\<close> and by \<open>JSON.stringify\<close> lists the array-index keys
  first (\<open>ownEntries\<close>); the assignment \<open>obj[name] = value\<close> creates no entry
  for the name \<open>__proto__\<close> (\<open>objAssign\<close>). The one exception is
  \<open>spec_paths\<close>, which holds the entries of \<open>spec.paths\<close> as
  \<open>Object.entries\<close> enumerates them.

  A JSON value (the type \<open>any\<close> of an \<open>example\<close>). The code tests a number
  for truthiness and hands it to \<open>JSON.stringify\<close>, and does nothing else with
  it; a number is given by the text that JavaScript prints for it
  (\<open>Number::toString\<close>: \<open>0\<close> for both zeros, \<open>-3\<close>, \<open>1.5\<close>, \<open>1e+21\<close>,
  \<open>Infinity\<close> for a literal beyond the range of a double).
\<close>

datatype json =
    JNull
  | JBool bool
  | JNum string
  | JStr string
  | JArr "json list"
  | JObj "(string \<times> json) list"

text \<open>
  Interface \<open>Schema\<close>: the fields the functions below read
  (\<open>description\<close>, \<open>required\<close>, \<open>enum\<close> and \<open>default\<close> are never read by them).
  \<open>PrototypeMember key\<close> is the member of \<open>Object.prototype\<close> that a read of
  \<open>spec.components.schemas[key]\<close> finds when the map has no entry of its own
  under that name (the function \<open>Object\<close> for \<open>constructor\<close>, the object
  \<open>Object.prototype\<close> for \<open>__proto__\<close>): the code goes on with it as with a
  schema, and every field it reads of it is \<open>undefined\<close>.
\<close>

datatype schema =
    Schema
      (schema_type: "string option")
      (schema_format: "string option")
      (schema_properties: "(string \<times> schema) list option")
      (schema_items: "schema option")
      (schema_example: "json option")
      (schema_ref: "string option")
  | PrototypeMember (member_key: string)
where
  "schema_type (PrototypeMember key) = None"
| "schema_format (PrototypeMember key) = None"
| "schema_properties (PrototypeMember key) = None"
| "schema_items (PrototypeMember key) = None"
| "schema_example (PrototypeMember key) = None"
| "schema_ref (PrototypeMember key) = None"

record tag =
  tag_name :: string
  tag_description :: "string option"

text \<open>
  Interface \<open>Parameter\<close>, which also stands for a reference object \<open>{ $ref }\<close>:
  \<open>param_in\<close> is the string the code compares with \<open>'path'\<close> and \<open>'query'\<close>.
\<close>

record parameter =
  param_name :: string
  param_in :: string
  param_required :: "bool option"
  param_schema :: "schema option"
  param_example :: "json option"
  param_ref :: "string option"

record operation =
  op_tags :: "string list option"
  op_summary :: "string option"
  op_parameters :: "parameter list option"

record pathItem =
  pi_get :: "operation option"
  pi_post :: "operation option"
  pi_put :: "operation option"
  pi_delete :: "operation option"
  pi_patch :: "operation option"

record server =
  server_url :: string

record components =
  comp_schemas :: "(string \<times> schema) list option"
  comp_parameters :: "(string \<times> parameter) list option"

record openAPISpec =
  spec_servers :: "server list option"
  spec_tags :: "tag list option"
  spec_paths :: "(string \<times> pathItem) list"
  spec_components :: "components option"

datatype httpMethod = Get | Post | Put | Delete | Patch

record endpoint =
  ep_path :: string
  ep_method :: httpMethod
  ep_operation :: operation


section \<open>JavaScript library functions used by the code\<close>

text \<open>Truthiness of a JSON value, as \<open>if (value)\<close> tests it.\<close>

fun truthy :: "json \<Rightarrow> bool" where
  "truthy JNull = False"
| "truthy (JBool b) = b"
| "truthy (JNum t) = (t \<noteq> ''0'' \<and> t \<noteq> ''NaN'')"
| "truthy (JStr s) = (s \<noteq> [])"
| "truthy (JArr xs) = True"
| "truthy (JObj kvs) = True"

text \<open>\<open>s.startsWith(p)\<close>\<close>

fun startsWith :: "string \<Rightarrow> string \<Rightarrow> bool" where
  "startsWith s [] = True"
| "startsWith [] (p # ps) = False"
| "startsWith (c # cs) (p # ps) = (c = p \<and> startsWith cs ps)"

text \<open>
  The first occurrence of \<open>pat\<close> in a string: the text before it and the text
  after it, or \<open>None\<close> when \<open>pat\<close> does not occur.
\<close>

fun splitFirst :: "string \<Rightarrow> string \<Rightarrow> (string \<times> string) option" where
  "splitFirst pat [] = (if pat = [] then Some ([], []) else None)"
| "splitFirst pat (c # cs) =
     (if startsWith (c # cs) pat then Some ([], drop (length pat) (c # cs))
      else map_option (\<lambda>(pre, post). (c # pre, post)) (splitFirst pat cs))"

text \<open>
  \<open>GetSubstitution\<close> of ECMAScript for a string pattern (no capture groups): in the
  replacement text \<open>$$\<close> stands for \<open>$\<close>, \<open>$&\<close> for the matched text,
  \<open>$`\<close> for the text before the match and \<open>$'\<close> for the text after it; any
  other \<open>$\<close> is literal.
\<close>

fun getSubstitution :: "string \<Rightarrow> string \<Rightarrow> string \<Rightarrow> string \<Rightarrow> string" where
  "getSubstitution matched pre post [] = []"
| "getSubstitution matched pre post [c] = [c]"
| "getSubstitution matched pre post (c # d # rest) =
     (if c = CHR ''$'' then
        (if d = CHR ''$'' then CHR ''$'' # getSubstitution matched pre post rest
         else if d = CHR ''&'' then matched @ getSubstitution matched pre post rest
         else if d = CHR 0x60 then pre @ getSubstitution matched pre post rest
         else if d = CHR 0x27 then post @ getSubstitution matched pre post rest
         else c # getSubstitution matched pre post (d # rest))
      else c # getSubstitution matched pre post (d # rest))"

text \<open>\<open>s.replace(pat, replacement)\<close> with a string pattern: the first occurrence only.\<close>

definition String_replace :: "string \<Rightarrow> string \<Rightarrow> string \<Rightarrow> string" where
  "String_replace s pat replacement =
     (case splitFirst pat s of
        None \<Rightarrow> s
      | Some (pre, post) \<Rightarrow> pre @ getSubstitution pat pre post replacement @ post)"

text \<open>\<open>parts.join(sep)\<close>\<close>

fun join :: "string \<Rightarrow> string list \<Rightarrow> string" where
  "join sep [] = []"
| "join sep [x] = x"
| "join sep (x # y # ys) = x @ sep @ join sep (y # ys)"

text \<open>
  \<open>encodeURIComponent\<close>: every byte of the UTF-8 text outside the unreserved set
  becomes \<open>%XX\<close> in upper-case hexadecimal. (It throws on a lone surrogate, which
  is no UTF-8 text and is outside the model.)
\<close>

definition uriUnreserved :: "char \<Rightarrow> bool" where
  "uriUnreserved c =
     (c \<in> set (''ABCDEFGHIJKLMNOPQRSTUVWXYZabcdefghijklmnopqrstuvwxyz0123456789-_.!~*()''
               @ [CHR 0x27]))"

definition hexDigitUpper :: "nat \<Rightarrow> char" where
  "hexDigitUpper n = ''0123456789ABCDEF'' ! n"

definition percentEncode :: "char \<Rightarrow> string" where
  "percentEncode c =
     [CHR ''%'', hexDigitUpper (of_char c div 16), hexDigitUpper (of_char c mod 16)]"

definition encodeURIComponent :: "string \<Rightarrow> string" where
  "encodeURIComponent s = concat (map (\<lambda>c. if uriUnreserved c then [c] else percentEncode c) s)"

text \<open>
  The names of the members of \<open>Object.prototype\<close>, which every object of a
  parsed document inherits.
\<close>

definition objectPrototypeKeys :: "string list" where
  "objectPrototypeKeys =
     [''constructor'', ''__defineGetter__'', ''__defineSetter__'', ''hasOwnProperty'',
      ''__lookupGetter__'', ''__lookupSetter__'', ''isPrototypeOf'', ''propertyIsEnumerable'',
      ''toString'', ''valueOf'', ''__proto__'', ''toLocaleString'']"

text \<open>
  The read \<open>obj[key]\<close> on such an object: the entry of the object's own under
  that key; without one, the member of \<open>Object.prototype\<close> of that name
  (\<open>inherited key\<close>); else \<open>undefined\<close>.
\<close>

definition objGet :: "(string \<times> 'v) list \<Rightarrow> (string \<Rightarrow> 'v) \<Rightarrow> string \<Rightarrow> 'v option" where
  "objGet obj inherited key =
     (case map_of obj key of
        Some v \<Rightarrow> Some v
      | None \<Rightarrow> if key \<in> set objectPrototypeKeys then Some (inherited key) else None)"

text \<open>
  An array index is the decimal text, without a leading zero, of an integer from
  0 to \<open>2^32 - 2\<close>. The own keys of an object are enumerated with the array
  indices first, in ascending numeric order, then the other keys in the order of
  their creation (\<open>OrdinaryOwnPropertyKeys\<close>); \<open>Object.entries\<close> and
  \<open>JSON.stringify\<close> follow that order.
\<close>

definition isDigit :: "char \<Rightarrow> bool" where
  "isDigit c = (c \<in> set ''0123456789'')"

definition decimalValue :: "string \<Rightarrow> int" where
  "decimalValue s = foldl (\<lambda>n c. 10 * n + (of_char c - 48)) 0 s"

definition isArrayIndex :: "string \<Rightarrow> bool" where
  "isArrayIndex s =
     (s \<noteq> [] \<and> list_all isDigit s \<and> (s = ''0'' \<or> hd s \<noteq> CHR ''0'')
      \<and> decimalValue s \<le> 4294967294)"

definition ownEntries :: "(string \<times> 'v) list \<Rightarrow> (string \<times> 'v) list" where
  "ownEntries obj =
     sort_key (\<lambda>kv. decimalValue (fst kv)) (filter (\<lambda>kv. isArrayIndex (fst kv)) obj)
     @ filter (\<lambda>kv. \<not> isArrayIndex (fst kv)) obj"

text \<open>
  The creation or update of an own entry (\<open>CreateDataProperty\<close>, and \<open>set\<close> of a
  \<open>Map\<close>): an existing key keeps its place, a new key is appended.
\<close>

fun objSet :: "(string \<times> 'v) list \<Rightarrow> string \<Rightarrow> 'v \<Rightarrow> (string \<times> 'v) list" where
  "objSet [] name v = [(name, v)]"
| "objSet ((k, w) # rest) name v =
     (if k = name then (k, v) # rest else (k, w) # objSet rest name v)"

text \<open>
  The assignment \<open>obj[name] = value\<close> on an object created by \<open>{}\<close>. The name
  \<open>__proto__\<close> is the accessor of \<open>Object.prototype\<close>: its setter replaces the
  prototype of \<open>obj\<close> when the value is an object or \<open>null\<close> and does nothing
  otherwise, and in neither case does \<open>obj\<close> get an entry of its own. Every
  other name sets an own entry (the other inherited members are writable data
  properties, also those of a prototype installed by that setter).
\<close>

definition objAssign :: "(string \<times> 'v) list \<Rightarrow> string \<Rightarrow> 'v \<Rightarrow> (string \<times> 'v) list" where
  "objAssign obj name v = (if name = ''__proto__'' then obj else objSet obj name v)"

text \<open>
  \<open>JSON.stringify(value, null, 2)\<close>. A finite number is written as JavaScript
  prints it, any other number as \<open>null\<close>; the members of an object are written
  in the order of \<open>ownEntries\<close>.
\<close>

definition newline :: string where
  "newline = [CHR 0x0A]"

definition backslash :: char where
  "backslash = CHR 0x5C"

definition hexDigitLower :: "nat \<Rightarrow> char" where
  "hexDigitLower n = ''0123456789abcdef'' ! n"

definition quoteChar :: "char \<Rightarrow> string" where
  "quoteChar c =
     (if c = CHR 0x08 then [backslash, CHR ''b'']
      else if c = CHR 0x09 then [backslash, CHR ''t'']
      else if c = CHR 0x0A then [backslash, CHR ''n'']
      else if c = CHR 0x0C then [backslash, CHR ''f'']
      else if c = CHR 0x0D then [backslash, CHR ''r'']
      else if c = CHR 0x22 then [backslash, CHR 0x22]
      else if c = backslash then [backslash, backslash]
      else if (of_char c :: nat) < 32 then
        [backslash, CHR ''u'', CHR ''0'', CHR ''0'',
         hexDigitLower (of_char c div 16), hexDigitLower (of_char c mod 16)]
      else [c])"

definition QuoteJSONString :: "string \<Rightarrow> string" where
  "QuoteJSONString s = CHR 0x22 # concat (map quoteChar s) @ [CHR 0x22]"

definition gap :: string where
  "gap = ''  ''"

function SerializeJSONProperty :: "string \<Rightarrow> json \<Rightarrow> string" where
  "SerializeJSONProperty indent JNull = ''null''"
| "SerializeJSONProperty indent (JBool b) = (if b then ''true'' else ''false'')"
| "SerializeJSONProperty indent (JNum t) =
     (if t \<in> set [''Infinity'', ''-Infinity'', ''NaN''] then ''null'' else t)"
| "SerializeJSONProperty indent (JStr s) = QuoteJSONString s"
| "SerializeJSONProperty indent (JArr xs) =
     (if xs = [] then ''[]''
      else ''['' @ newline @ indent @ gap
           @ join ('','' @ newline @ indent @ gap)
               (map (SerializeJSONProperty (indent @ gap)) xs)
           @ newline @ indent @ '']'')"
| "SerializeJSONProperty indent (JObj kvs) =
     (if kvs = [] then ''{}''
      else ''{'' @ newline @ indent @ gap
           @ join ('','' @ newline @ indent @ gap)
               (map (\<lambda>kv. QuoteJSONString (fst kv) @ '': ''
                           @ SerializeJSONProperty (indent @ gap) (snd kv)) (ownEntries kvs))
           @ newline @ indent @ ''}'')"
  by pat_completeness auto

termination
proof (relation "measure (\<lambda>(indent, v). size v)")
  show "wf (measure (\<lambda>(indent, v). size v))" by simp
next
  fix indent :: string and xs :: "json list" and x
  assume "xs \<noteq> []" "x \<in> set xs"
  then show "((indent @ gap, x), indent, JArr xs) \<in> measure (\<lambda>(indent, v). size v)"
    by (simp add: size_list_estimation' less_Suc_eq_le)
next
  fix indent :: string and kvs :: "(string \<times> json) list" and x
  assume "kvs \<noteq> []" "x \<in> set (ownEntries kvs)"
  then have "x \<in> set kvs" by (auto simp: ownEntries_def)
  then have "size_prod (\<lambda>x. 0) size x \<le> size_list (size_prod (\<lambda>x. 0) size) kvs"
    by (simp add: size_list_estimation')
  then show "((indent @ gap, snd x), indent, JObj kvs) \<in> measure (\<lambda>(indent, v). size v)"
    by (cases x) simp
qed

definition JSON_stringify :: "json \<Rightarrow> string" where
  "JSON_stringify v = SerializeJSONProperty [] v"

section \<open>Endpoint index (extractEndpoints and groupEndpointsByTag, src/unnamed/part_000)\<close>

definition HIDDEN_ENDPOINTS :: "string list" where
  "HIDDEN_ENDPOINTS = [''/api/v1/test-key'']"

definition methods :: "httpMethod list" where
  "methods = [Get, Post, Put, Delete, Patch]"

text \<open>\<open>pathItem[method]\<close>\<close>

fun pathItemOp :: "pathItem \<Rightarrow> httpMethod \<Rightarrow> operation option" where
  "pathItemOp item Get = pi_get item"
| "pathItemOp item Post = pi_post item"
| "pathItemOp item Put = pi_put item"
| "pathItemOp item Delete = pi_delete item"
| "pathItemOp item Patch = pi_patch item"

text \<open>
  The inner loop of \<open>extractEndpoints\<close> over the methods, pushing onto
  \<open>endpoints\<close>; an operation is an object, hence truthy whenever present.
\<close>

fun pushMethods :: "string \<Rightarrow> pathItem \<Rightarrow> httpMethod list \<Rightarrow> endpoint list \<Rightarrow> endpoint list" where
  "pushMethods path item [] endpoints = endpoints"
| "pushMethods path item (m # ms) endpoints =
     pushMethods path item ms
       (case pathItemOp item m of
          Some operation \<Rightarrow>
            endpoints @ [\<lparr>ep_path = path, ep_method = m, ep_operation = operation\<rparr>]
        | None \<Rightarrow> endpoints)"

text \<open>The outer loop over \<open>Object.entries(spec.paths)\<close>.\<close>

fun walkPaths :: "(string \<times> pathItem) list \<Rightarrow> endpoint list \<Rightarrow> endpoint list" where
  "walkPaths [] endpoints = endpoints"
| "walkPaths ((path, item) # rest) endpoints =
     (if path \<in> set HIDDEN_ENDPOINTS then walkPaths rest endpoints
      else walkPaths rest (pushMethods path item methods endpoints))"

definition extractEndpoints :: "openAPISpec \<Rightarrow> endpoint list" where
  "extractEndpoints spec = walkPaths (spec_paths spec) []"

text \<open>
  The endpoints of one path as the specification words them: one per method present,
  in the order get, post, put, delete, patch.
\<close>

definition endpointsOfPath :: "string \<Rightarrow> pathItem \<Rightarrow> endpoint list" where
  "endpointsOfPath path item =
     List.map_filter
       (\<lambda>m. map_option (\<lambda>operation. \<lparr>ep_path = path, ep_method = m, ep_operation = operation\<rparr>)
              (pathItemOp item m))
       [Get, Post, Put, Delete, Patch]"


text \<open>
  The loop \<open>tagDescriptions.set(tag.name, tag.description || '')\<close>; a \<open>Map\<close> keeps
  its keys in insertion order, as \<open>objSet\<close> does.
\<close>

fun setDescriptions :: "tag list \<Rightarrow> (string \<times> string) list \<Rightarrow> (string \<times> string) list" where
  "setDescriptions [] tagDescriptions = tagDescriptions"
| "setDescriptions (t # ts) tagDescriptions =
     setDescriptions ts
       (objSet tagDescriptions (tag_name t)
          (case tag_description t of Some d \<Rightarrow> d | None \<Rightarrow> []))"

text \<open>\<open>tagMap.get(tag)!.push(endpoint)\<close>\<close>

fun mapPush :: "(string \<times> 'a list) list \<Rightarrow> string \<Rightarrow> 'a \<Rightarrow> (string \<times> 'a list) list" where
  "mapPush [] tag x = []"
| "mapPush ((k, xs) # rest) tag x =
     (if k = tag then (k, xs @ [x]) # rest else (k, xs) # mapPush rest tag x)"







definition tagDescriptions :: "openAPISpec \<Rightarrow> (string \<times> string) list" where
  "tagDescriptions spec =
     (case spec_tags spec of Some ts \<Rightarrow> setDescriptions ts [] | None \<Rightarrow> [])"





section \<open>Reference resolution (src/unnamed/part_000 and components/EndpointView.tsx)\<close>

definition schemaPrefix :: string where
  "schemaPrefix = ''#/components/schemas/''"

definition parameterPrefix :: string where
  "parameterPrefix = ''#/components/parameters/''"

text \<open>
  The entry of the map \<open>spec.components.schemas\<close> under a name, if the map has
  one of its own: the schemas present in the document.
\<close>

definition ownSchema :: "openAPISpec \<Rightarrow> string \<Rightarrow> schema option" where
  "ownSchema spec name =
     (case spec_components spec of
        None \<Rightarrow> None
      | Some c \<Rightarrow> (case comp_schemas c of None \<Rightarrow> None | Some ss \<Rightarrow> map_of ss name))"

text \<open>
  \<open>spec.components?.schemas?.[name]\<close>: a read of the map, which also finds the
  members that the map inherits.
\<close>

definition schemaNamed :: "openAPISpec \<Rightarrow> string \<Rightarrow> schema option" where
  "schemaNamed spec name =
     (case spec_components spec of
        None \<Rightarrow> None
      | Some c \<Rightarrow>
          (case comp_schemas c of None \<Rightarrow> None | Some ss \<Rightarrow> objGet ss PrototypeMember name))"

text \<open>
  A member of \<open>Object.prototype\<close> read as a \<open>Parameter\<close>: it has no \<open>in\<close>, no
  \<open>$ref\<close>, no schema and no example; its \<open>name\<close> is the name of the function
  (\<open>Object\<close> for \<open>constructor\<close>; the object under \<open>__proto__\<close> has none). As in
  a reference object, a missing name or location is the empty string.
\<close>

definition prototypeParameter :: "string \<Rightarrow> parameter" where
  "prototypeParameter key =
     \<lparr>param_name = (if key = ''constructor'' then ''Object''
                     else if key = ''__proto__'' then [] else key),
      param_in = [], param_required = None, param_schema = None, param_example = None,
      param_ref = None\<rparr>"

text \<open>\<open>spec.components?.parameters?.[name]\<close>\<close>

definition parameterNamed :: "openAPISpec \<Rightarrow> string \<Rightarrow> parameter option" where
  "parameterNamed spec name =
     (case spec_components spec of
        None \<Rightarrow> None
      | Some c \<Rightarrow>
          (case comp_parameters c of
             None \<Rightarrow> None
           | Some ps \<Rightarrow> objGet ps prototypeParameter name))"

definition resolveRef :: "openAPISpec \<Rightarrow> string \<Rightarrow> schema option" where
  "resolveRef spec ref =
     (if \<not> startsWith ref schemaPrefix then None
      else let schemaName = String_replace ref schemaPrefix [] in schemaNamed spec schemaName)"

definition resolveParameter :: "openAPISpec \<Rightarrow> parameter \<Rightarrow> parameter option" where
  "resolveParameter spec param =
     (case param_ref param of
        None \<Rightarrow> Some param
      | Some ref \<Rightarrow>
          if ref = [] then Some param
          else if \<not> startsWith ref parameterPrefix then None
          else let paramName = String_replace ref parameterPrefix []
               in parameterNamed spec paramName)"

definition resolveParameters :: "openAPISpec \<Rightarrow> operation \<Rightarrow> parameter list" where
  "resolveParameters spec operation =
     (case op_parameters operation of
        None \<Rightarrow> []
      | Some ps \<Rightarrow> List.map_filter (resolveParameter spec) ps)"

text \<open>
  The reference step written inline in \<open>generateExampleResponse\<close> and in
  \<open>SchemaFields\<close>: \<open>schema.$ref && spec\<close>, then the name by \<open>replace\<close> (with no
  test of the prefix) and the lookup; \<open>None\<close> when the step does not apply or
  finds nothing.
\<close>

definition lookupSchemaRef :: "openAPISpec option \<Rightarrow> schema \<Rightarrow> schema option" where
  "lookupSchemaRef spec schema =
     (case schema_ref schema of
        None \<Rightarrow> None
      | Some ref \<Rightarrow>
          if ref = [] then None
          else (case spec of
                  None \<Rightarrow> None
                | Some sp \<Rightarrow>
                    let refName = String_replace ref schemaPrefix []
                    in schemaNamed sp refName))"

text \<open>
  The schema at which that reference step stops when it is repeated, as the
  recursive calls of \<open>generateExampleResponse\<close> and \<open>SchemaFields\<close> repeat it
  (EndpointView.tsx, lines 205 to 211 and 162 to 168). The source has no function
  of its own for this; the specification names it \<open>resolveSchema\<close>. Nothing bounds
  the recursion: on a cycle of references it never returns, which is \<open>None\<close>
  here.
\<close>

partial_function (option) resolveSchema :: "openAPISpec option \<Rightarrow> schema \<Rightarrow> schema option" where
  "resolveSchema spec schema =
     (case lookupSchemaRef spec schema of
        Some resolved \<Rightarrow> resolveSchema spec resolved
      | None \<Rightarrow> Some schema)"

declare resolveSchema.simps [code]

text \<open>The schema reached after exactly \<open>n\<close> reference steps, if all of them resolve.\<close>

fun followRefs :: "openAPISpec option \<Rightarrow> nat \<Rightarrow> schema \<Rightarrow> schema option" where
  "followRefs spec 0 s = Some s"
| "followRefs spec (Suc n) s =
     (case lookupSchemaRef spec s of None \<Rightarrow> None | Some t \<Rightarrow> followRefs spec n t)"


section \<open>Example synthesis (generateExampleResponse, components/EndpointView.tsx)\<close>

text \<open>The value given to one property of an object schema.\<close>

definition propertyExample :: "schema \<Rightarrow> json" where
  "propertyExample prop =
     (case schema_example prop of
        Some e \<Rightarrow> e
      | None \<Rightarrow>
          if schema_type prop = Some ''string'' then
            (if schema_format prop = Some ''date-time'' then JStr ''2024-01-01T00:00:00Z''
             else JStr ''string'')
          else if schema_type prop = Some ''number'' \<or> schema_type prop = Some ''integer''
            then JNum ''0''
          else if schema_type prop = Some ''boolean'' then JBool True
          else if schema_type prop = Some ''array'' then JArr []
          else JNull)"

text \<open>
  The loop \<open>for (const [name, prop] of entries)\<close> filling \<open>obj\<close> by
  \<open>obj[name] = ...\<close>.
\<close>

fun assignProperties :: "(string \<times> schema) list \<Rightarrow> (string \<times> json) list \<Rightarrow> (string \<times> json) list" where
  "assignProperties [] obj = obj"
| "assignProperties ((name, prop) # rest) obj =
     assignProperties rest (objAssign obj name (propertyExample prop))"

text \<open>
  \<open>generateExampleResponse\<close>; the result \<open>None\<close> is a run that never returns a
  value (on a cycle of references the recursion has no end). The object rule fills
  the object created by \<open>{}\<close> from \<open>Object.entries(schema.properties)\<close>.
\<close>

partial_function (option) generateExampleResponse ::
    "schema option \<Rightarrow> openAPISpec option \<Rightarrow> string option" where
  "generateExampleResponse schema spec =
     (case schema of
        None \<Rightarrow> Some ''{}''
      | Some s \<Rightarrow>
          (case lookupSchemaRef spec s of
             Some resolved \<Rightarrow> generateExampleResponse (Some resolved) spec
           | None \<Rightarrow>
               if (case schema_example s of Some e \<Rightarrow> truthy e | None \<Rightarrow> False) then
                 Some (JSON_stringify (the (schema_example s)))
               else if schema_type s = Some ''array'' then
                 (case schema_items s of
                    Some its \<Rightarrow>
                      Option.bind (generateExampleResponse (Some its) spec)
                        (\<lambda>itemExample. Some (''['' @ newline @ ''  '' @ itemExample @ newline @ '']''))
                  | None \<Rightarrow> Some (''['' @ newline @ ''  '' @ ''{}'' @ newline @ '']''))
               else if schema_type s = Some ''object'' \<and> schema_properties s \<noteq> None then
                 Some (JSON_stringify
                   (JObj (assignProperties (ownEntries (the (schema_properties s))) [])))
               else Some ''{}''))"

declare generateExampleResponse.simps [code]

section \<open>Request building (component Playground, in components/MethodBadge.tsx)\<close>

text \<open>\<open>spec?.servers?.[0]?.url || ''\<close>\<close>

definition baseUrlOf :: "openAPISpec option \<Rightarrow> string" where
  "baseUrlOf spec =
     (case spec of
        None \<Rightarrow> []
      | Some sp \<Rightarrow>
          (case spec_servers sp of
             None \<Rightarrow> []
           | Some [] \<Rightarrow> []
           | Some (sv # svs) \<Rightarrow> server_url sv))"

text \<open>The template literal \<open>`{${param.name}}`\<close>.\<close>

definition placeholder :: "parameter \<Rightarrow> string" where
  "placeholder param = ''{'' @ param_name param @ ''}''"

text \<open>
  The map \<open>params\<close> of user values: \<open>params[name]\<close> is \<open>None\<close> when there is no
  entry; an empty value is falsy.
\<close>

definition substitutePathParam :: "(string \<Rightarrow> string option) \<Rightarrow> string \<Rightarrow> parameter \<Rightarrow> string" where
  "substitutePathParam params builtPath param =
     String_replace builtPath (placeholder param)
       (case params (param_name param) of
          Some v \<Rightarrow> if v \<noteq> [] then v else placeholder param
        | None \<Rightarrow> placeholder param)"

fun substitutePathParams :: "(string \<Rightarrow> string option) \<Rightarrow> parameter list \<Rightarrow> string \<Rightarrow> string" where
  "substitutePathParams params [] builtPath = builtPath"
| "substitutePathParams params (param # rest) builtPath =
     substitutePathParams params rest (substitutePathParam params builtPath param)"

fun collectQueryParts :: "(string \<Rightarrow> string option) \<Rightarrow> parameter list \<Rightarrow> string list \<Rightarrow> string list" where
  "collectQueryParts params [] queryParts = queryParts"
| "collectQueryParts params (param # rest) queryParts =
     collectQueryParts params rest
       (case params (param_name param) of
          Some v \<Rightarrow>
            if v \<noteq> [] then queryParts @ [param_name param @ ''='' @ encodeURIComponent v]
            else queryParts
        | None \<Rightarrow> queryParts)"

definition queryStringOf :: "(string \<Rightarrow> string option) \<Rightarrow> parameter list \<Rightarrow> string" where
  "queryStringOf params queryParams =
     (let queryParts = collectQueryParts params queryParams []
      in if length queryParts > 0 then ''?'' @ join ''&'' queryParts else [])"

definition allParamsOf :: "openAPISpec option \<Rightarrow> endpoint \<Rightarrow> parameter list" where
  "allParamsOf spec endpoint =
     (case spec of Some sp \<Rightarrow> resolveParameters sp (ep_operation endpoint) | None \<Rightarrow> [])"

definition pathParamsOf :: "openAPISpec option \<Rightarrow> endpoint \<Rightarrow> parameter list" where
  "pathParamsOf spec endpoint = filter (\<lambda>p. param_in p = ''path'') (allParamsOf spec endpoint)"

definition queryParamsOf :: "openAPISpec option \<Rightarrow> endpoint \<Rightarrow> parameter list" where
  "queryParamsOf spec endpoint = filter (\<lambda>p. param_in p = ''query'') (allParamsOf spec endpoint)"

definition buildUrl :: "openAPISpec option \<Rightarrow> endpoint \<Rightarrow> (string \<Rightarrow> string option) \<Rightarrow> string" where
  "buildUrl spec endpoint params =
     (let baseUrl = baseUrlOf spec;
          builtPath = substitutePathParams params (pathParamsOf spec endpoint) (ep_path endpoint);
          queryString = queryStringOf params (queryParamsOf spec endpoint)
      in baseUrl @ builtPath @ queryString)"

text \<open>\<open>method.toUpperCase()\<close>\<close>

fun methodUpperCase :: "httpMethod \<Rightarrow> string" where
  "methodUpperCase Get = ''GET''"
| "methodUpperCase Post = ''POST''"
| "methodUpperCase Put = ''PUT''"
| "methodUpperCase Delete = ''DELETE''"
| "methodUpperCase Patch = ''PATCH''"

text \<open>
  \<open>executeRequest\<close> up to the call of \<open>fetch\<close>: the URL and the options it hands
  over. The response and the timing are not modelled.
\<close>

record fetchCall =
  fc_url :: string
  fc_method :: string
  fc_headers :: "(string \<times> string) list"
  fc_body :: "string option"

definition executeRequest ::
    "openAPISpec option \<Rightarrow> endpoint \<Rightarrow> (string \<Rightarrow> string option) \<Rightarrow> string \<Rightarrow> string \<Rightarrow> fetchCall" where
  "executeRequest spec endpoint params apiKey requestBody =
     (let url = buildUrl spec endpoint params;
          headers0 = [(''Content-Type'', ''application/json'')];
          headers = (if apiKey \<noteq> [] then objSet headers0 ''X-API-Key'' apiKey else headers0)
      in \<lparr>fc_url = url, fc_method = methodUpperCase (ep_method endpoint), fc_headers = headers,
          fc_body =
            (if requestBody \<noteq> [] \<and> ep_method endpoint \<in> set [Post, Put, Patch]
             then Some requestBody else None)\<rparr>)"

text \<open>The line continuation \<open>' \\\n  '\<close> of the rendered command.\<close>

definition continuation :: string where
  "continuation = '' '' @ [backslash] @ newline @ ''  ''"

definition generateCurl ::
    "openAPISpec option \<Rightarrow> endpoint \<Rightarrow> (string \<Rightarrow> string option) \<Rightarrow> string \<Rightarrow> string \<Rightarrow> string" where
  "generateCurl spec endpoint params apiKey requestBody =
     (let url = buildUrl spec endpoint params;
          curl0 = ''curl -X '' @ methodUpperCase (ep_method endpoint) @ continuation
                  @ [CHR 0x27] @ url @ [CHR 0x27];
          curl1 = (if apiKey \<noteq> [] then
                     curl0 @ continuation @ ''-H '' @ [CHR 0x27] @ ''X-API-Key: '' @ apiKey @ [CHR 0x27]
                   else curl0)
      in if requestBody \<noteq> [] \<and> ep_method endpoint \<in> set [Post, Put, Patch] then
           curl1 @ continuation @ ''-H '' @ [CHR 0x27] @ ''Content-Type: application/json'' @ [CHR 0x27]
                 @ continuation @ ''-d '' @ [CHR 0x27] @ requestBody @ [CHR 0x27]
         else curl1)"

section \<open>Example documents\<close>

definition emptyPathItem :: pathItem where
  "emptyPathItem = \<lparr>pi_get = None, pi_post = None, pi_put = None, pi_delete = None, pi_patch = None\<rparr>"

definition taggedOperation :: "string list option \<Rightarrow> operation" where
  "taggedOperation ts = \<lparr>op_tags = ts, op_summary = None, op_parameters = None\<rparr>"

text \<open>
  A document with a hidden path, tags declared in the order Markets, Health, and
  operations tagged Health, Zeta (undeclared), Markets, untagged and Zeta.
\<close>

definition indexSpec :: openAPISpec where
  "indexSpec =
     \<lparr>spec_servers = None,
      spec_tags = Some [\<lparr>tag_name = ''Markets'', tag_description = None\<rparr>,
                        \<lparr>tag_name = ''Health'', tag_description = Some ''Liveness''\<rparr>],
      spec_paths =
        [(''/ping'', emptyPathItem
            \<lparr>pi_get := Some (taggedOperation (Some [''Health''])),
             pi_patch := Some (taggedOperation (Some [''Zeta'']))\<rparr>),
         (''/api/v1/test-key'', emptyPathItem\<lparr>pi_get := Some (taggedOperation (Some [''Health'']))\<rparr>),
         (''/markets'', emptyPathItem
            \<lparr>pi_post := Some (taggedOperation (Some [''Markets'', ''Health''])),
             pi_put := Some (taggedOperation None),
             pi_delete := Some (taggedOperation (Some [''Zeta'']))\<rparr>)],
      spec_components = None\<rparr>"

definition pingEndpoint :: endpoint where
  "pingEndpoint =
     \<lparr>ep_path = ''/ping'', ep_method = Get, ep_operation = taggedOperation (Some [''Health''])\<rparr>"

definition orderEndpoint :: endpoint where
  "orderEndpoint =
     \<lparr>ep_path = ''/orders'', ep_method = Post, ep_operation = taggedOperation None\<rparr>"

definition plainSchema :: "string option \<Rightarrow> json option \<Rightarrow> schema" where
  "plainSchema ty ex = Schema ty None None None ex None"

definition refSchema :: "string \<Rightarrow> schema" where
  "refSchema ref = Schema None None None None None (Some ref)"

text \<open>An object schema whose properties all carry a falsy example.\<close>

definition countersSchema :: schema where
  "countersSchema =
     Schema (Some ''object'') None
       (Some [(''count'', plainSchema (Some ''integer'') (Some (JNum ''0''))),
              (''active'', plainSchema (Some ''boolean'') (Some (JBool False))),
              (''note'', plainSchema (Some ''string'') (Some (JStr []))),
              (''parent'', plainSchema (Some ''object'') (Some JNull))])
       None None None"

text \<open>An object schema with one property of every kind.\<close>

definition eventSchema :: schema where
  "eventSchema =
     Schema (Some ''object'') None
       (Some [(''title'', plainSchema (Some ''string'') None),
              (''at'', Schema (Some ''string'') (Some ''date-time'') None None None None),
              (''price'', plainSchema (Some ''number'') None),
              (''count'', plainSchema (Some ''integer'') None),
              (''ok'', plainSchema (Some ''boolean'') None),
              (''tags'', Schema (Some ''array'') None None
                  (Some (plainSchema (Some ''string'') None)) None None),
              (''owner'', Schema (Some ''object'') None
                  (Some [(''id'', plainSchema (Some ''integer'') None)]) None None None),
              (''any'', plainSchema None None),
              (''kind'', plainSchema (Some ''string'') (Some (JStr ''binary'')))])
       None None None"

text \<open>
  Object schemas that declare the properties \<open>zeta\<close>, \<open>10\<close> and \<open>7\<close>, in that
  order; the second one declares a property \<open>__proto__\<close> after them.
\<close>

definition seatsSchema :: schema where
  "seatsSchema =
     Schema (Some ''object'') None
       (Some [(''zeta'', plainSchema (Some ''string'') None),
              (''10'', plainSchema (Some ''integer'') None),
              (''7'', plainSchema (Some ''boolean'') None)])
       None None None"

definition shelfSchema :: schema where
  "shelfSchema =
     Schema (Some ''object'') None
       (Some [(''zeta'', plainSchema (Some ''string'') None),
              (''10'', plainSchema (Some ''integer'') None),
              (''7'', plainSchema (Some ''boolean'') None),
              (''__proto__'', plainSchema (Some ''string'') None)])
       None None None"

definition petSchema :: schema where
  "petSchema =
     Schema (Some ''object'') None
       (Some [(''name'', Schema (Some ''string'') None None None None None)]) None None None"

text \<open>
  Components with a plain schema, an alias of it, a reference to a missing schema
  and a schema that refers to itself.
\<close>

definition refSpec :: openAPISpec where
  "refSpec =
     \<lparr>spec_servers = None, spec_tags = None, spec_paths = [],
      spec_components = Some
        \<lparr>comp_schemas = Some
           [(''Pet'', petSchema),
            (''Alias'', refSchema ''#/components/schemas/Pet''),
            (''Dangling'', refSchema ''#/components/schemas/Missing''),
            (''Loop'', refSchema ''#/components/schemas/Loop'')],
         comp_parameters = None\<rparr>\<rparr>"

definition pathParameter :: "string \<Rightarrow> parameter" where
  "pathParameter name =
     \<lparr>param_name = name, param_in = ''path'', param_required = Some True, param_schema = None,
      param_example = None, param_ref = None\<rparr>"

definition queryParameter :: "string \<Rightarrow> parameter" where
  "queryParameter name =
     \<lparr>param_name = name, param_in = ''query'', param_required = None, param_schema = None,
      param_example = None, param_ref = None\<rparr>"

text \<open>A reference object \<open>{ $ref }\<close>: it has no name and no location of its own.\<close>

definition refParameter :: "string \<Rightarrow> parameter" where
  "refParameter ref =
     \<lparr>param_name = [], param_in = [], param_required = None, param_schema = None,
      param_example = None, param_ref = Some ref\<rparr>"

text \<open>A document with one server and the reusable path parameter \<open>Id\<close>, named \<open>id\<close>.\<close>

definition marketSpec :: openAPISpec where
  "marketSpec =
     \<lparr>spec_servers = Some [\<lparr>server_url = ''https://api.example.com''\<rparr>],
      spec_tags = None, spec_paths = [],
      spec_components = Some
        \<lparr>comp_schemas = None, comp_parameters = Some [(''Id'', pathParameter ''id'')]\<rparr>\<rparr>"

definition parametersEndpoint :: "string \<Rightarrow> parameter list \<Rightarrow> endpoint" where
  "parametersEndpoint path ps =
     \<lparr>ep_path = path, ep_method = Get,
      ep_operation = \<lparr>op_tags = None, op_summary = None, op_parameters = Some ps\<rparr>\<rparr>"

section \<open>Properties of the enumeration of objects\<close>

lemma insort_key_map:
  "insort_key f (g x) (map g xs) = map g (insort_key (\<lambda>y. f (g y)) x xs)"
  by (induction xs) auto

lemma sort_key_map:
  "sort_key f (map g xs) = map g (sort_key (\<lambda>y. f (g y)) xs)"
  by (induction xs) (auto simp: insort_key_map)

text \<open>
  The enumeration keeps every entry, puts the array indices first in ascending
  order and leaves the other keys in their order; it changes nothing in an object
  without array indices, or in one that is already enumerated.
\<close>

lemma set_ownEntries: "set (ownEntries xs) = set xs"
  by (auto simp: ownEntries_def)

lemma length_ownEntries: "length (ownEntries xs) = length xs"
  by (simp add: ownEntries_def sum_length_filter_compl)

lemma ownEntries_no_index:
  "list_all (\<lambda>kv. \<not> isArrayIndex (fst kv)) xs \<Longrightarrow> ownEntries xs = xs"
  by (simp add: ownEntries_def list_all_iff filter_empty_conv filter_id_conv)

lemma filter_index_ownEntries:
  "filter (\<lambda>kv. isArrayIndex (fst kv)) (ownEntries xs) =
     sort_key (\<lambda>kv. decimalValue (fst kv)) (filter (\<lambda>kv. isArrayIndex (fst kv)) xs)"
  by (simp add: ownEntries_def filter_sort)

lemma filter_other_ownEntries:
  "filter (\<lambda>kv. \<not> isArrayIndex (fst kv)) (ownEntries xs) =
     filter (\<lambda>kv. \<not> isArrayIndex (fst kv)) xs"
  by (simp add: ownEntries_def filter_sort)

lemma ownEntries_index_first:
  "ownEntries xs = filter (\<lambda>kv. isArrayIndex (fst kv)) (ownEntries xs)
                   @ filter (\<lambda>kv. \<not> isArrayIndex (fst kv)) (ownEntries xs)"
  by (simp add: filter_index_ownEntries filter_other_ownEntries) (simp add: ownEntries_def)

lemma sorted_index_ownEntries:
  "sorted (map (\<lambda>kv. decimalValue (fst kv)) (filter (\<lambda>kv. isArrayIndex (fst kv)) (ownEntries xs)))"
  by (simp add: filter_index_ownEntries)

lemma ownEntries_idem: "ownEntries (ownEntries xs) = ownEntries xs"
proof -
  have "sort_key (\<lambda>kv. decimalValue (fst kv))
          (sort_key (\<lambda>kv. decimalValue (fst kv)) (filter (\<lambda>kv. isArrayIndex (fst kv)) xs))
        = sort_key (\<lambda>kv. decimalValue (fst kv)) (filter (\<lambda>kv. isArrayIndex (fst kv)) xs)"
    by (rule sort_key_id_if_sorted) simp
  then show ?thesis
    unfolding ownEntries_def [of "ownEntries xs"] filter_index_ownEntries filter_other_ownEntries
    by (simp add: ownEntries_def)
qed

lemma ownEntries_map:
  "ownEntries (map (\<lambda>(k, v). (k, g v)) xs) = map (\<lambda>(k, v). (k, g v)) (ownEntries xs)"
proof -
  have a: "(\<lambda>kv. isArrayIndex (fst kv)) \<circ> (\<lambda>(k, v). (k, g v)) = (\<lambda>kv. isArrayIndex (fst kv))"
    "(\<lambda>kv. \<not> isArrayIndex (fst kv)) \<circ> (\<lambda>(k, v). (k, g v)) = (\<lambda>kv. \<not> isArrayIndex (fst kv))"
    "(\<lambda>y. decimalValue (fst ((\<lambda>(k, v). (k, g v)) y))) = (\<lambda>kv. decimalValue (fst kv))"
    by (auto simp: fun_eq_iff)
  show ?thesis
    by (simp add: ownEntries_def filter_map sort_key_map a)
qed

lemma map_fst_ownEntries:
  "map fst (ownEntries xs) =
     sort_key decimalValue (filter isArrayIndex (map fst xs))
     @ filter (\<lambda>k. \<not> isArrayIndex k) (map fst xs)"
proof -
  have "sort_key decimalValue (map fst (filter (\<lambda>kv. isArrayIndex (fst kv)) xs))
      = map fst (sort_key (\<lambda>kv. decimalValue (fst kv)) (filter (\<lambda>kv. isArrayIndex (fst kv)) xs))"
    by (rule sort_key_map)
  then show ?thesis
    by (simp add: ownEntries_def filter_map comp_def)
qed

lemma distinct_ownEntries:
  "distinct (map fst xs) \<Longrightarrow> distinct (map fst (ownEntries xs))"
  by (auto simp: map_fst_ownEntries)

section \<open>Properties of the endpoint index\<close>

lemma pushMethods_append:
  "pushMethods path item ms endpoints =
     endpoints @ List.map_filter
       (\<lambda>m. map_option (\<lambda>operation. \<lparr>ep_path = path, ep_method = m, ep_operation = operation\<rparr>)
              (pathItemOp item m)) ms"
  by (induction ms arbitrary: endpoints) (auto simp: List.map_filter_simps split: option.splits)

lemma walkPaths_append:
  "walkPaths ps endpoints =
     endpoints @ concat (map (\<lambda>(path, item).
        if path \<in> set HIDDEN_ENDPOINTS then [] else endpointsOfPath path item) ps)"
  by (induction ps arbitrary: endpoints)
     (auto simp: pushMethods_append endpointsOfPath_def methods_def)

lemma endpointsOfPath_path:
  "e \<in> set (endpointsOfPath path item) \<Longrightarrow> ep_path e = path"
  by (auto simp: endpointsOfPath_def List.map_filter_simps split: option.splits)

lemma endpointsOfPath_count:
  "length (filter (\<lambda>e. ep_path e = p \<and> ep_method e = m) (endpointsOfPath path item)) =
     (if p = path \<and> pathItemOp item m \<noteq> None then 1 else 0)"
  by (cases m) (auto simp: endpointsOfPath_def List.map_filter_simps split: option.splits)

lemma filter_endpointsOfPath_other:
  "p \<noteq> path \<Longrightarrow>
     filter (\<lambda>e. ep_path e = p \<and> ep_method e = m) (endpointsOfPath path item) = []"
  by (auto simp: filter_empty_conv dest: endpointsOfPath_path)

lemma walk_count:
  "distinct (map fst ps) \<Longrightarrow> (path, item) \<in> set ps \<Longrightarrow>
   length (filter (\<lambda>e. ep_path e = path \<and> ep_method e = m)
     (concat (map (\<lambda>(path, item).
        if path \<in> set HIDDEN_ENDPOINTS then [] else endpointsOfPath path item) ps))) =
   (if path \<in> set HIDDEN_ENDPOINTS \<or> pathItemOp item m = None then 0 else 1)"
proof (induction ps)
  case Nil
  then show ?case by simp
next
  case (Cons a ps)
  obtain p i where a: "a = (p, i)" by (cases a)
  show ?case
  proof (cases "p = path")
    case True
    with Cons.prems a have "i = item" and notin: "path \<notin> fst ` set ps"
      by (auto simp: image_iff)
    have "filter (\<lambda>e. ep_path e = path \<and> ep_method e = m)
       (concat (map (\<lambda>(path, item).
          if path \<in> set HIDDEN_ENDPOINTS then [] else endpointsOfPath path item) ps)) = []"
      using notin
      by (auto simp: filter_empty_conv image_iff split: if_splits dest!: endpointsOfPath_path)
    moreover have
      "length (filter (\<lambda>e. ep_path e = path \<and> ep_method e = m) (endpointsOfPath path item)) =
        (if pathItemOp item m \<noteq> None then 1 else 0)"
      by (simp only: endpointsOfPath_count) simp
    ultimately show ?thesis using a True \<open>i = item\<close>
      by (simp del: length_0_conv split: if_splits)
  next
    case False
    with Cons a show ?thesis by (auto simp: filter_endpointsOfPath_other)
  qed
qed

text \<open>
  Claim C6. \<open>extractEndpoints\<close> walks \<open>spec.paths\<close> in key order, drops every path
  of the hidden set whatever its methods, and for each other path yields one
  endpoint per method present, in the order get, post, put, delete, patch
  (\<open>endpointsOfPath\<close>). No endpoint returned has a hidden path, and, the keys of
  \<open>spec.paths\<close> being distinct, a pair of a path and a method occurs exactly once
  when the path is not hidden and the method is present, and not at all otherwise.
\<close>

theorem extractEndpoints_index:
  "extractEndpoints spec =
     concat (map (\<lambda>(path, item). endpointsOfPath path item)
       (filter (\<lambda>(path, item). path \<notin> set HIDDEN_ENDPOINTS) (spec_paths spec)))
   \<and> (\<forall>e \<in> set (extractEndpoints spec). ep_path e \<notin> set HIDDEN_ENDPOINTS)
   \<and> (distinct (map fst (spec_paths spec)) \<longrightarrow>
        (\<forall>(path, item) \<in> set (spec_paths spec). \<forall>m.
           length (filter (\<lambda>e. ep_path e = path \<and> ep_method e = m) (extractEndpoints spec)) =
             (if path \<in> set HIDDEN_ENDPOINTS \<or> pathItemOp item m = None then 0 else 1)))"
proof (intro conjI)
  have eq: "extractEndpoints spec = concat (map (\<lambda>(path, item).
        if path \<in> set HIDDEN_ENDPOINTS then [] else endpointsOfPath path item) (spec_paths spec))"
    by (simp add: extractEndpoints_def walkPaths_append)
  have "concat (map (\<lambda>(path, item).
          if path \<in> set HIDDEN_ENDPOINTS then [] else endpointsOfPath path item) ps)
      = concat (map (\<lambda>(path, item). endpointsOfPath path item)
         (filter (\<lambda>(path, item). path \<notin> set HIDDEN_ENDPOINTS) ps))" for ps
    by (induction ps) auto
  with eq show "extractEndpoints spec =
     concat (map (\<lambda>(path, item). endpointsOfPath path item)
       (filter (\<lambda>(path, item). path \<notin> set HIDDEN_ENDPOINTS) (spec_paths spec)))" by simp
  show "\<forall>e \<in> set (extractEndpoints spec). ep_path e \<notin> set HIDDEN_ENDPOINTS"
    unfolding eq by (auto split: if_splits dest: endpointsOfPath_path)
  show "distinct (map fst (spec_paths spec)) \<longrightarrow>
        (\<forall>(path, item) \<in> set (spec_paths spec). \<forall>m.
           length (filter (\<lambda>e. ep_path e = path \<and> ep_method e = m) (extractEndpoints spec)) =
             (if path \<in> set HIDDEN_ENDPOINTS \<or> pathItemOp item m = None then 0 else 1))"
    unfolding eq using walk_count by blast
qed

theorem extractEndpoints_index_witness:
  "distinct (map fst (spec_paths indexSpec))
   \<and> map (\<lambda>e. (ep_path e, ep_method e)) (extractEndpoints indexSpec) =
       [(''/ping'', Get), (''/ping'', Patch), (''/markets'', Post), (''/markets'', Put),
        (''/markets'', Delete)]
   \<and> ''/api/v1/test-key'' \<notin> ep_path ` set (extractEndpoints indexSpec)
   \<and> length (filter (\<lambda>e. ep_path e = ''/markets'' \<and> ep_method e = Put)
        (extractEndpoints indexSpec)) = 1"
proof -
  have d: "distinct (map fst (spec_paths indexSpec))"
    by (simp add: indexSpec_def)
  have m: "(''/markets'', snd (spec_paths indexSpec ! 2)) \<in> set (spec_paths indexSpec)"
    by (simp add: indexSpec_def)
  have e: "map (\<lambda>e. (ep_path e, ep_method e))
      (concat (map (\<lambda>(path, item). endpointsOfPath path item)
         (filter (\<lambda>(path, item). path \<notin> set HIDDEN_ENDPOINTS) (spec_paths indexSpec)))) =
      [(''/ping'', Get), (''/ping'', Patch), (''/markets'', Post), (''/markets'', Put),
       (''/markets'', Delete)]"
    by (simp add: indexSpec_def HIDDEN_ENDPOINTS_def endpointsOfPath_def List.map_filter_simps
         emptyPathItem_def taggedOperation_def)
  have p: "pathItemOp (snd (spec_paths indexSpec ! 2)) Put \<noteq> None"
    "''/markets'' \<notin> set HIDDEN_ENDPOINTS"
    by (simp_all add: indexSpec_def HIDDEN_ENDPOINTS_def emptyPathItem_def)
  have h: "''/api/v1/test-key'' \<in> set HIDDEN_ENDPOINTS"
    by (simp add: HIDDEN_ENDPOINTS_def)
  have "\<forall>e \<in> set (extractEndpoints indexSpec). ep_path e \<notin> set HIDDEN_ENDPOINTS"
    using extractEndpoints_index [of indexSpec] by blast
  with h have n: "''/api/v1/test-key'' \<notin> ep_path ` set (extractEndpoints indexSpec)"
    by auto
  have l: "length (filter (\<lambda>e. ep_path e = ''/markets'' \<and> ep_method e = Put)
        (extractEndpoints indexSpec)) = 1"
    using extractEndpoints_index [of indexSpec] d m p by (auto simp del: length_0_conv)
  have "map (\<lambda>e. (ep_path e, ep_method e)) (extractEndpoints indexSpec) =
       [(''/ping'', Get), (''/ping'', Patch), (''/markets'', Post), (''/markets'', Put),
        (''/markets'', Delete)]"
    using extractEndpoints_index [of indexSpec] e by simp
  with d n l show ?thesis by simp
qed

section \<open>Properties of the request builder\<close>

text \<open>
  Claim C5. The request handed to \<open>fetch\<close> carries a body exactly when the method
  is POST, PUT or PATCH and the body text is not empty, and the body is that text
  unchanged; the JSON content-type header is there when a body is sent; the
  header \<open>X-API-Key\<close> carries the credential when the credential is not empty
  and is absent otherwise; the header names are distinct and no header other
  than these two is set.
\<close>

theorem executeRequest_headers_body:
  "fc_body (executeRequest spec endpoint params apiKey requestBody) =
     (if ep_method endpoint \<in> {Post, Put, Patch} \<and> requestBody \<noteq> []
      then Some requestBody else None)
   \<and> (fc_body (executeRequest spec endpoint params apiKey requestBody) \<noteq> None \<longrightarrow>
        (''Content-Type'', ''application/json'')
          \<in> set (fc_headers (executeRequest spec endpoint params apiKey requestBody)))
   \<and> (apiKey \<noteq> [] \<longrightarrow>
        map_of (fc_headers (executeRequest spec endpoint params apiKey requestBody)) ''X-API-Key''
          = Some apiKey)
   \<and> (apiKey = [] \<longrightarrow>
        map_of (fc_headers (executeRequest spec endpoint params apiKey requestBody)) ''X-API-Key''
          = None)
   \<and> distinct (map fst (fc_headers (executeRequest spec endpoint params apiKey requestBody)))
   \<and> fst ` set (fc_headers (executeRequest spec endpoint params apiKey requestBody))
        \<subseteq> {''Content-Type'', ''X-API-Key''}"
  by (simp add: executeRequest_def Let_def)

theorem executeRequest_headers_body_witness:
  "fc_body (executeRequest None orderEndpoint Map.empty ''secret'' ''{}'') = Some ''{}''
   \<and> (''Content-Type'', ''application/json'')
        \<in> set (fc_headers (executeRequest None orderEndpoint Map.empty ''secret'' ''{}''))
   \<and> map_of (fc_headers (executeRequest None orderEndpoint Map.empty ''secret'' ''{}''))
        ''X-API-Key'' = Some ''secret''
   \<and> map_of (fc_headers (executeRequest None orderEndpoint Map.empty [] ''{}''))
        ''X-API-Key'' = None"
proof -
  have m: "ep_method orderEndpoint = Post" by (simp add: orderEndpoint_def)
  have k: "''secret'' \<noteq> []" "''{}'' \<noteq> []" by simp_all
  show ?thesis
    using executeRequest_headers_body [of None orderEndpoint Map.empty "''secret''" "''{}''"]
      executeRequest_headers_body [of None orderEndpoint Map.empty "[]" "''{}''"] m k
    by simp
qed

text \<open>
  The rendered command in terms of the request: it shows the URL, the
  credential header and the body of the request, and the content-type header
  only together with a body.
\<close>

lemma generateCurl_of_request:
  "generateCurl spec endpoint params apiKey requestBody =
     (let r = executeRequest spec endpoint params apiKey requestBody in
      ''curl -X '' @ fc_method r @ continuation @ [CHR 0x27] @ fc_url r @ [CHR 0x27]
      @ (case map_of (fc_headers r) ''X-API-Key'' of
           Some k \<Rightarrow> continuation @ ''-H '' @ [CHR 0x27] @ ''X-API-Key: '' @ k @ [CHR 0x27]
         | None \<Rightarrow> [])
      @ (case fc_body r of
           Some b \<Rightarrow>
             continuation @ ''-H '' @ [CHR 0x27] @ ''Content-Type: application/json'' @ [CHR 0x27]
             @ continuation @ ''-d '' @ [CHR 0x27] @ b @ [CHR 0x27]
         | None \<Rightarrow> []))"
  by (simp add: generateCurl_def executeRequest_def Let_def)

text \<open>
  Claim C4, at GET \<open>/ping\<close> with no credential and no body: the request carries
  the header \<open>Content-Type: application/json\<close>, and the rendered command is
  \<open>curl -X GET\<close>, a line continuation and the quoted URL, with no header at all.
\<close>

theorem generateCurl_omits_content_type:
  "fc_headers (executeRequest None pingEndpoint Map.empty [] []) =
     [(''Content-Type'', ''application/json'')]
   \<and> fc_body (executeRequest None pingEndpoint Map.empty [] []) = None
   \<and> generateCurl None pingEndpoint Map.empty [] [] =
       ''curl -X GET '' @ [CHR 0x5C, CHR 0x0A] @ ''  '' @ [CHR 0x27] @ ''/ping'' @ [CHR 0x27]"
  by (simp add: executeRequest_def generateCurl_def Let_def pingEndpoint_def buildUrl_def
      baseUrlOf_def pathParamsOf_def queryParamsOf_def allParamsOf_def queryStringOf_def
      continuation_def backslash_def newline_def)

section \<open>Properties of the example synthesizer\<close>

lemma generateExampleResponse_example:
  "lookupSchemaRef spec s = None \<Longrightarrow> schema_example s = Some e \<Longrightarrow> truthy e \<Longrightarrow>
     generateExampleResponse (Some s) spec = Some (JSON_stringify e)"
  by (subst generateExampleResponse.simps) simp

lemma propertyExample_example:
  "schema_example prop = Some e \<Longrightarrow> propertyExample prop = e"
  by (simp add: propertyExample_def)

text \<open>
  Claim C3, at schemas whose explicit example is \<open>0\<close>, \<open>false\<close>, \<open>""\<close> or
  \<open>null\<close>: on the top-level schema the example is ignored and the result is
  \<open>{}\<close>, not the text of the example; on the properties of an object schema the
  same examples are used as they are.
\<close>

theorem falsy_example_ignored:
  "generateExampleResponse (Some (plainSchema (Some ''integer'') (Some (JNum ''0'')))) None
     = Some ''{}''
   \<and> JSON_stringify (JNum ''0'') = ''0''
   \<and> generateExampleResponse (Some (plainSchema (Some ''boolean'') (Some (JBool False)))) None
       = Some ''{}''
   \<and> JSON_stringify (JBool False) = ''false''
   \<and> generateExampleResponse (Some (plainSchema (Some ''string'') (Some (JStr [])))) None
       = Some ''{}''
   \<and> JSON_stringify (JStr []) = [CHR 0x22, CHR 0x22]
   \<and> generateExampleResponse (Some (plainSchema None (Some JNull))) None = Some ''{}''
   \<and> JSON_stringify JNull = ''null''
   \<and> generateExampleResponse (Some countersSchema) None =
       Some (JSON_stringify (JObj [(''count'', JNum ''0''), (''active'', JBool False),
                                   (''note'', JStr []), (''parent'', JNull)]))"
  by code_simp

lemma objSet_fresh:
  "name \<notin> fst ` set obj \<Longrightarrow> objSet obj name v = obj @ [(name, v)]"
  by (induction obj) auto

text \<open>
  The object filled by the loop: one entry per property, in the order of the
  loop, but none for a property named \<open>__proto__\<close>.
\<close>

lemma assignProperties_entries:
  "distinct (map fst props) \<Longrightarrow> fst ` set props \<inter> fst ` set obj = {} \<Longrightarrow>
     assignProperties props obj =
       obj @ map (\<lambda>(name, prop). (name, propertyExample prop))
               (filter (\<lambda>(name, prop). name \<noteq> ''__proto__'') props)"
proof (induction props arbitrary: obj)
  case Nil
  then show ?case by simp
next
  case (Cons a props)
  obtain k p where a: "a = (k, p)" by (cases a)
  from Cons.prems a have fresh: "k \<notin> fst ` set obj" by auto
  from Cons.prems a have d: "distinct (map fst props)" by simp
  show ?case
  proof (cases "k = ''__proto__''")
    case True
    from Cons.prems a have "fst ` set props \<inter> fst ` set obj = {}" by auto
    with Cons.IH [of obj] d a True show ?thesis by (simp add: objAssign_def)
  next
    case False
    from Cons.prems a have "fst ` set props \<inter> fst ` set (obj @ [(k, propertyExample p)]) = {}"
      by auto
    with Cons.IH [of "obj @ [(k, propertyExample p)]"] d a False fresh show ?thesis
      by (simp add: objAssign_def objSet_fresh)
  qed
qed

lemma exampleObject_entries:
  assumes "distinct (map fst props)" "''__proto__'' \<notin> fst ` set props"
  shows "assignProperties (ownEntries props) [] =
           map (\<lambda>(name, prop). (name, propertyExample prop)) (ownEntries props)"
    and "ownEntries (map (\<lambda>(name, prop). (name, propertyExample prop)) (ownEntries props)) =
           map (\<lambda>(name, prop). (name, propertyExample prop)) (ownEntries props)"
proof -
  have d: "distinct (map fst (ownEntries props))" using assms(1) by (rule distinct_ownEntries)
  have n: "fst kv \<noteq> ''__proto__''" if "kv \<in> set props" for kv
  proof
    assume e: "fst kv = ''__proto__''"
    from that have "fst kv \<in> fst ` set props" by (rule imageI)
    with e assms(2) show False by simp
  qed
  have "filter (\<lambda>(name, prop). name \<noteq> ''__proto__'') (ownEntries props) = ownEntries props"
    by (auto simp: filter_id_conv set_ownEntries dest!: n)
  with assignProperties_entries [OF d, of "[]"]
  show "assignProperties (ownEntries props) [] =
           map (\<lambda>(name, prop). (name, propertyExample prop)) (ownEntries props)"
    by simp
  show "ownEntries (map (\<lambda>(name, prop). (name, propertyExample prop)) (ownEntries props)) =
           map (\<lambda>(name, prop). (name, propertyExample prop)) (ownEntries props)"
    by (simp add: ownEntries_map ownEntries_idem)
qed

text \<open>
  Claim C9 as stated fails. The object schema \<open>shelfSchema\<close> declares the
  properties \<open>zeta\<close>, \<open>10\<close>, \<open>7\<close> and \<open>__proto__\<close>, in that order. The text
  produced lists \<open>7\<close>, \<open>10\<close> and \<open>zeta\<close>: the names that are array indices come
  first, in ascending numeric order, not in the order of their declaration; and
  the property \<open>__proto__\<close> has no entry.
\<close>

theorem object_example_not_in_declaration_order:
  "schema_type shelfSchema = Some ''object''
   \<and> map fst (the (schema_properties shelfSchema)) = [''zeta'', ''10'', ''7'', ''__proto__'']
   \<and> generateExampleResponse (Some shelfSchema) None =
       Some (''{'' @ newline
             @ ''  '' @ QuoteJSONString ''7'' @ '': true,'' @ newline
             @ ''  '' @ QuoteJSONString ''10'' @ '': 0,'' @ newline
             @ ''  '' @ QuoteJSONString ''zeta'' @ '': '' @ QuoteJSONString ''string'' @ newline
             @ ''}'')"
  by code_simp

text \<open>
  Claim C9, amended. For a schema that reaches the object rule (its reference
  step finds nothing and it has no truthy example of its own) with type \<open>object\<close>
  and properties, none of them named \<open>__proto__\<close>, the result is the JSON text
  of an object with one entry per property, in the order in which the properties
  are enumerated, whose value is \<open>propertyExample\<close>. The enumeration
  (\<open>ownEntries\<close>) holds every declared property once: first the properties
  whose name is an array index, in ascending numeric order, then the others in
  the order of their declaration; it is the declaration order when no name is an
  array index. The value is the property's own example when it has one, else
  \<open>"string"\<close> for type string (the instant \<open>2024-01-01T00:00:00Z\<close> when the
  format is date-time), \<open>0\<close> for number and integer, \<open>true\<close> for boolean,
  \<open>[]\<close> for array and \<open>null\<close> for any other or absent type. A schema that
  reaches the end of the rules (not an array, not an object with properties) gives
  \<open>{}\<close>.
\<close>

theorem object_example:
  "(lookupSchemaRef spec s = None \<longrightarrow>
    (case schema_example s of Some e \<Rightarrow> \<not> truthy e | None \<Rightarrow> True) \<longrightarrow>
    schema_type s = Some ''object'' \<longrightarrow> schema_properties s = Some props \<longrightarrow>
    distinct (map fst props) \<longrightarrow> ''__proto__'' \<notin> fst ` set props \<longrightarrow>
      generateExampleResponse (Some s) spec =
        Some (JSON_stringify
          (JObj (map (\<lambda>(name, prop). (name, propertyExample prop)) (ownEntries props))))
      \<and> ownEntries (map (\<lambda>(name, prop). (name, propertyExample prop)) (ownEntries props))
          = map (\<lambda>(name, prop). (name, propertyExample prop)) (ownEntries props))
   \<and> set (ownEntries props) = set props \<and> length (ownEntries props) = length props
   \<and> ownEntries props =
        filter (\<lambda>kv. isArrayIndex (fst kv)) (ownEntries props)
        @ filter (\<lambda>kv. \<not> isArrayIndex (fst kv)) props
   \<and> sorted (map (\<lambda>kv. decimalValue (fst kv))
               (filter (\<lambda>kv. isArrayIndex (fst kv)) (ownEntries props)))
   \<and> (list_all (\<lambda>kv. \<not> isArrayIndex (fst kv)) props \<longrightarrow> ownEntries props = props)
   \<and> (schema_example p = Some e \<longrightarrow> propertyExample p = e)
   \<and> (schema_example p = None \<longrightarrow>
        propertyExample p =
          (if schema_type p = Some ''string'' then
             (if schema_format p = Some ''date-time'' then JStr ''2024-01-01T00:00:00Z''
              else JStr ''string'')
           else if schema_type p \<in> {Some ''number'', Some ''integer''} then JNum ''0''
           else if schema_type p = Some ''boolean'' then JBool True
           else if schema_type p = Some ''array'' then JArr []
           else JNull))
   \<and> (lookupSchemaRef spec s = None \<longrightarrow>
        (case schema_example s of Some e \<Rightarrow> \<not> truthy e | None \<Rightarrow> True) \<longrightarrow>
        schema_type s \<noteq> Some ''array'' \<longrightarrow>
        \<not> (schema_type s = Some ''object'' \<and> schema_properties s \<noteq> None) \<longrightarrow>
          generateExampleResponse (Some s) spec = Some ''{}'')"
proof (intro conjI impI)
  assume a: "lookupSchemaRef spec s = None"
    "case schema_example s of Some e \<Rightarrow> \<not> truthy e | None \<Rightarrow> True"
    "schema_type s = Some ''object''" "schema_properties s = Some props"
    and d: "distinct (map fst props)" "''__proto__'' \<notin> fst ` set props"
  from a have "generateExampleResponse (Some s) spec =
      Some (JSON_stringify (JObj (assignProperties (ownEntries props) [])))"
    by (subst generateExampleResponse.simps) (simp split: option.splits)
  then show "generateExampleResponse (Some s) spec =
        Some (JSON_stringify
          (JObj (map (\<lambda>(name, prop). (name, propertyExample prop)) (ownEntries props))))"
    by (simp add: exampleObject_entries(1) [OF d])
  from d show "ownEntries (map (\<lambda>(name, prop). (name, propertyExample prop)) (ownEntries props))
      = map (\<lambda>(name, prop). (name, propertyExample prop)) (ownEntries props)"
    by (rule exampleObject_entries(2))
next
  show "set (ownEntries props) = set props" by (rule set_ownEntries)
next
  show "length (ownEntries props) = length props" by (rule length_ownEntries)
next
  show "ownEntries props =
        filter (\<lambda>kv. isArrayIndex (fst kv)) (ownEntries props)
        @ filter (\<lambda>kv. \<not> isArrayIndex (fst kv)) props"
    using ownEntries_index_first [of props] by (simp only: filter_other_ownEntries)
next
  show "sorted (map (\<lambda>kv. decimalValue (fst kv))
               (filter (\<lambda>kv. isArrayIndex (fst kv)) (ownEntries props)))"
    by (rule sorted_index_ownEntries)
next
  assume "list_all (\<lambda>kv. \<not> isArrayIndex (fst kv)) props"
  then show "ownEntries props = props" by (rule ownEntries_no_index)
next
  assume "schema_example p = Some e"
  then show "propertyExample p = e" by (simp add: propertyExample_def)
next
  assume "schema_example p = None"
  then show "propertyExample p =
          (if schema_type p = Some ''string'' then
             (if schema_format p = Some ''date-time'' then JStr ''2024-01-01T00:00:00Z''
              else JStr ''string'')
           else if schema_type p \<in> {Some ''number'', Some ''integer''} then JNum ''0''
           else if schema_type p = Some ''boolean'' then JBool True
           else if schema_type p = Some ''array'' then JArr []
           else JNull)"
    by (simp add: propertyExample_def)
next
  assume "lookupSchemaRef spec s = None"
    "case schema_example s of Some e \<Rightarrow> \<not> truthy e | None \<Rightarrow> True"
    "schema_type s \<noteq> Some ''array''"
    "\<not> (schema_type s = Some ''object'' \<and> schema_properties s \<noteq> None)"
  then show "generateExampleResponse (Some s) spec = Some ''{}''"
    by (subst generateExampleResponse.simps) (auto split: option.splits)
qed

theorem object_example_witness:
  "generateExampleResponse (Some eventSchema) None =
     Some (JSON_stringify
       (JObj [(''title'', JStr ''string''), (''at'', JStr ''2024-01-01T00:00:00Z''),
              (''price'', JNum ''0''), (''count'', JNum ''0''), (''ok'', JBool True),
              (''tags'', JArr []), (''owner'', JNull), (''any'', JNull),
              (''kind'', JStr ''binary'')]))
   \<and> map fst (the (schema_properties seatsSchema)) = [''zeta'', ''10'', ''7'']
   \<and> generateExampleResponse (Some seatsSchema) None =
       Some (JSON_stringify
         (JObj [(''7'', JBool True), (''10'', JNum ''0''), (''zeta'', JStr ''string'')]))
   \<and> ownEntries [(''7'', JBool True), (''10'', JNum ''0''), (''zeta'', JStr ''string'')]
       = [(''7'', JBool True), (''10'', JNum ''0''), (''zeta'', JStr ''string'')]
   \<and> ownEntries (the (schema_properties eventSchema)) = the (schema_properties eventSchema)
   \<and> propertyExample (plainSchema (Some ''boolean'') None) = JBool True
   \<and> propertyExample (plainSchema (Some ''string'') (Some (JStr ''binary''))) = JStr ''binary''
   \<and> generateExampleResponse (Some (plainSchema (Some ''string'') None)) None = Some ''{}''"
proof -
  have a: "lookupSchemaRef None eventSchema = None"
    "case schema_example eventSchema of Some e \<Rightarrow> \<not> truthy e | None \<Rightarrow> True"
    "schema_type eventSchema = Some ''object''"
    by (simp_all add: lookupSchemaRef_def eventSchema_def)
  have b: "schema_properties eventSchema = Some (the (schema_properties eventSchema))"
    "distinct (map fst (the (schema_properties eventSchema)))"
    "''__proto__'' \<notin> fst ` set (the (schema_properties eventSchema))"
    by (simp_all add: eventSchema_def)
  have c: "map (\<lambda>(name, prop). (name, propertyExample prop))
             (ownEntries (the (schema_properties eventSchema))) =
      [(''title'', JStr ''string''), (''at'', JStr ''2024-01-01T00:00:00Z''),
       (''price'', JNum ''0''), (''count'', JNum ''0''), (''ok'', JBool True),
       (''tags'', JArr []), (''owner'', JNull), (''any'', JNull), (''kind'', JStr ''binary'')]"
    by code_simp
  have c': "list_all (\<lambda>kv. \<not> isArrayIndex (fst kv)) (the (schema_properties eventSchema))"
    by code_simp
  have d: "schema_example (plainSchema (Some ''boolean'') None) = None"
    "schema_type (plainSchema (Some ''boolean'') None) = Some ''boolean''"
    by (simp_all add: plainSchema_def)
  have e: "lookupSchemaRef None (plainSchema (Some ''string'') None) = None"
    "case schema_example (plainSchema (Some ''string'') None) of
       Some e \<Rightarrow> \<not> truthy e | None \<Rightarrow> True"
    "schema_type (plainSchema (Some ''string'') None) \<noteq> Some ''array''"
    "\<not> (schema_type (plainSchema (Some ''string'') None) = Some ''object''
        \<and> schema_properties (plainSchema (Some ''string'') None) \<noteq> None)"
    by (simp_all add: lookupSchemaRef_def plainSchema_def)
  have f: "schema_example (plainSchema (Some ''string'') (Some (JStr ''binary'')))
      = Some (JStr ''binary'')"
    by (simp add: plainSchema_def)
  have g: "lookupSchemaRef None seatsSchema = None"
    "case schema_example seatsSchema of Some e \<Rightarrow> \<not> truthy e | None \<Rightarrow> True"
    "schema_type seatsSchema = Some ''object''"
    by (simp_all add: lookupSchemaRef_def seatsSchema_def)
  have h: "schema_properties seatsSchema = Some (the (schema_properties seatsSchema))"
    "distinct (map fst (the (schema_properties seatsSchema)))"
    "''__proto__'' \<notin> fst ` set (the (schema_properties seatsSchema))"
    "map fst (the (schema_properties seatsSchema)) = [''zeta'', ''10'', ''7'']"
    by (simp_all add: seatsSchema_def)
  have i: "map (\<lambda>(name, prop). (name, propertyExample prop))
             (ownEntries (the (schema_properties seatsSchema))) =
      [(''7'', JBool True), (''10'', JNum ''0''), (''zeta'', JStr ''string'')]"
    by code_simp
  note t1 = object_example [where spec = None and s = eventSchema
      and props = "the (schema_properties eventSchema)"
      and p = "plainSchema (Some ''boolean'') None"]
  note t2 = object_example [where spec = None and s = "plainSchema (Some ''string'') None"
      and p = "plainSchema (Some ''string'') (Some (JStr ''binary''))"
      and e = "JStr ''binary''"]
  note t3 = object_example [where spec = None and s = seatsSchema
      and props = "the (schema_properties seatsSchema)"]
  from t1 a b have "generateExampleResponse (Some eventSchema) None =
        Some (JSON_stringify
          (JObj (map (\<lambda>(name, prop). (name, propertyExample prop))
                   (ownEntries (the (schema_properties eventSchema))))))"
    by blast
  then have 1: "generateExampleResponse (Some eventSchema) None =
     Some (JSON_stringify
       (JObj [(''title'', JStr ''string''), (''at'', JStr ''2024-01-01T00:00:00Z''),
              (''price'', JNum ''0''), (''count'', JNum ''0''), (''ok'', JBool True),
              (''tags'', JArr []), (''owner'', JNull), (''any'', JNull),
              (''kind'', JStr ''binary'')]))"
    by (simp only: c)
  from t1 c' have 2: "ownEntries (the (schema_properties eventSchema))
      = the (schema_properties eventSchema)"
    by blast
  from t1 d have 3: "propertyExample (plainSchema (Some ''boolean'') None) = JBool True"
    by simp
  from t2 e f have 4:
    "generateExampleResponse (Some (plainSchema (Some ''string'') None)) None = Some ''{}''"
    "propertyExample (plainSchema (Some ''string'') (Some (JStr ''binary''))) = JStr ''binary''"
    by blast+
  from t3 g h have "generateExampleResponse (Some seatsSchema) None =
        Some (JSON_stringify
          (JObj (map (\<lambda>(name, prop). (name, propertyExample prop))
                   (ownEntries (the (schema_properties seatsSchema))))))
      \<and> ownEntries (map (\<lambda>(name, prop). (name, propertyExample prop))
                      (ownEntries (the (schema_properties seatsSchema))))
          = map (\<lambda>(name, prop). (name, propertyExample prop))
              (ownEntries (the (schema_properties seatsSchema)))"
    by blast
  then have 5: "generateExampleResponse (Some seatsSchema) None =
       Some (JSON_stringify
         (JObj [(''7'', JBool True), (''10'', JNum ''0''), (''zeta'', JStr ''string'')]))"
    "ownEntries [(''7'', JBool True), (''10'', JNum ''0''), (''zeta'', JStr ''string'')]
       = [(''7'', JBool True), (''10'', JNum ''0''), (''zeta'', JStr ''string'')]"
    by (simp_all only: i)
  from 1 2 3 4 5 h(4) show ?thesis by (intro conjI)
qed

section \<open>Properties of reference resolution\<close>

lemma startsWith_append: "startsWith (p @ rest) p"
  by (induction p) auto

lemma startsWith_iff: "startsWith s p \<longleftrightarrow> (\<exists>rest. s = p @ rest)"
proof (induction s p rule: startsWith.induct)
  case (1 s) show ?case by simp
next
  case (2 p ps) show ?case by simp
next
  case (3 c cs p ps) then show ?case by (auto simp: Cons_eq_append_conv)
qed

lemma splitFirst_prefix: "splitFirst p (p @ rest) = Some ([], rest)"
  by (cases "p @ rest") (auto simp: startsWith_append simp del: startsWith.simps dest: sym
      intro: startsWith_append)

lemma String_replace_prefix: "String_replace (p @ rest) p [] = rest"
  by (simp add: String_replace_def splitFirst_prefix)

lemma String_replace_startsWith:
  "startsWith ref p \<Longrightarrow> String_replace ref p [] = drop (length p) ref"
  by (auto simp: startsWith_iff String_replace_prefix)

lemma resolveSchema_step:
  "lookupSchemaRef spec s = Some t \<Longrightarrow> resolveSchema spec s = resolveSchema spec t"
  by (subst resolveSchema.simps) simp

lemma resolveSchema_stop:
  "lookupSchemaRef spec s = None \<Longrightarrow> resolveSchema spec s = Some s"
  by (subst resolveSchema.simps) simp

lemma resolveSchema_result:
  "resolveSchema spec s = Some r \<Longrightarrow> lookupSchemaRef spec r = None"
proof (rule resolveSchema.raw_induct [where P = "\<lambda>spec s r. lookupSchemaRef spec r = None"])
  fix f spec s r
  assume ih: "\<And>spec s r. f spec s = Some r \<Longrightarrow> lookupSchemaRef spec r = None"
    and st: "(case lookupSchemaRef spec s of
                None \<Rightarrow> Some s | Some resolved \<Rightarrow> f spec resolved) = Some r"
  show "lookupSchemaRef spec r = None"
  proof (cases "lookupSchemaRef spec s")
    case None
    with st show ?thesis by simp
  next
    case (Some t)
    with st have "f spec t = Some r" by simp
    then show ?thesis by (rule ih)
  qed
qed

lemma followRefs_resolveSchema:
  "followRefs spec n s = Some r \<Longrightarrow> lookupSchemaRef spec r = None \<Longrightarrow>
     resolveSchema spec s = Some r"
proof (induction n arbitrary: s)
  case 0
  then show ?case by (simp add: resolveSchema_stop)
next
  case (Suc n)
  then show ?case by (auto simp: resolveSchema_step split: option.splits)
qed

lemma lookup_wellformed:
  "schema_ref s = Some (schemaPrefix @ name) \<Longrightarrow>
     lookupSchemaRef (Some sp) s = schemaNamed sp name"
proof -
  assume r: "schema_ref s = Some (schemaPrefix @ name)"
  have "schemaPrefix \<noteq> []" by (simp add: schemaPrefix_def)
  with r show ?thesis
    by (simp add: lookupSchemaRef_def String_replace_prefix)
qed

text \<open>The synthesizer takes the same reference steps before it looks at the schema.\<close>

lemma generateExampleResponse_step:
  "lookupSchemaRef spec s = Some t \<Longrightarrow>
     generateExampleResponse (Some s) spec = generateExampleResponse (Some t) spec"
  by (subst generateExampleResponse.simps) simp

lemma generateExampleResponse_followRefs:
  "followRefs spec n s = Some r \<Longrightarrow>
     generateExampleResponse (Some s) spec = generateExampleResponse (Some r) spec"
  by (induction n arbitrary: s) (auto simp: generateExampleResponse_step split: option.splits)

lemma generateExampleResponse_resolveSchema:
  "resolveSchema spec s = Some r \<Longrightarrow>
     generateExampleResponse (Some s) spec = generateExampleResponse (Some r) spec"
proof (rule resolveSchema.raw_induct [where P = "\<lambda>spec s r.
    generateExampleResponse (Some s) spec = generateExampleResponse (Some r) spec"])
  fix f spec s r
  assume ih: "\<And>spec s r. f spec s = Some r \<Longrightarrow>
      generateExampleResponse (Some s) spec = generateExampleResponse (Some r) spec"
    and st: "(case lookupSchemaRef spec s of
                None \<Rightarrow> Some s | Some resolved \<Rightarrow> f spec resolved) = Some r"
  show "generateExampleResponse (Some s) spec = generateExampleResponse (Some r) spec"
  proof (cases "lookupSchemaRef spec s")
    case None
    with st show ?thesis by simp
  next
    case (Some t)
    with st have "f spec t = Some r" by simp
    then have "generateExampleResponse (Some t) spec = generateExampleResponse (Some r) spec"
      by (rule ih)
    with Some show ?thesis by (simp add: generateExampleResponse_step)
  qed
qed

text \<open>On a schema that refers to itself the resolution never returns.\<close>

lemma resolveSchema_loop:
  "resolveSchema (Some refSpec) (refSchema ''#/components/schemas/Loop'') = None"
proof -
  have l: "lookupSchemaRef (Some refSpec) (refSchema ''#/components/schemas/Loop'')
      = Some (refSchema ''#/components/schemas/Loop'')"
    by code_simp
  have "resolveSchema spec s = Some r \<Longrightarrow>
      \<not> (spec = Some refSpec \<and> s = refSchema ''#/components/schemas/Loop'')" for spec s r
  proof (rule resolveSchema.raw_induct [where P = "\<lambda>spec s r.
      \<not> (spec = Some refSpec \<and> s = refSchema ''#/components/schemas/Loop'')"])
    fix f spec s r
    assume ih: "\<And>spec s r. f spec s = Some r \<Longrightarrow>
          \<not> (spec = Some refSpec \<and> s = refSchema ''#/components/schemas/Loop'')"
      and st: "(case lookupSchemaRef spec s of
                  None \<Rightarrow> Some s | Some resolved \<Rightarrow> f spec resolved) = Some r"
    show "\<not> (spec = Some refSpec \<and> s = refSchema ''#/components/schemas/Loop'')"
    proof
      assume a: "spec = Some refSpec \<and> s = refSchema ''#/components/schemas/Loop''"
      with st l have "f spec s = Some r" by simp
      with ih a show False by blast
    qed
  qed
  then show ?thesis
    by (cases "resolveSchema (Some refSpec) (refSchema ''#/components/schemas/Loop'')") auto
qed

lemma schemaNamed_own:
  "ownSchema spec name = Some t \<Longrightarrow> schemaNamed spec name = Some t"
  by (auto simp: ownSchema_def schemaNamed_def objGet_def split: option.splits)

lemma schemaNamed_absent:
  "ownSchema spec name = None \<Longrightarrow> name \<notin> set objectPrototypeKeys \<Longrightarrow>
     schemaNamed spec name = None"
  by (auto simp: ownSchema_def schemaNamed_def objGet_def split: option.splits)

text \<open>
  The resolution returns exactly when the chain of references stops, at the
  schema where it stops; a chain that comes back to its start never stops.
\<close>

lemma followRefs_add:
  "followRefs spec (m + n) s = Option.bind (followRefs spec m s) (followRefs spec n)"
  by (induction m arbitrary: s) (auto split: option.splits)

lemma resolveSchema_followRefs:
  "resolveSchema spec s = Some r \<Longrightarrow> \<exists>n. followRefs spec n s = Some r"
proof (rule resolveSchema.raw_induct [where P = "\<lambda>spec s r. \<exists>n. followRefs spec n s = Some r"])
  fix f spec s r
  assume ih: "\<And>spec s r. f spec s = Some r \<Longrightarrow> \<exists>n. followRefs spec n s = Some r"
    and st: "(case lookupSchemaRef spec s of
                None \<Rightarrow> Some s | Some resolved \<Rightarrow> f spec resolved) = Some r"
  show "\<exists>n. followRefs spec n s = Some r"
  proof (cases "lookupSchemaRef spec s")
    case None
    with st have "followRefs spec 0 s = Some r" by simp
    then show ?thesis ..
  next
    case (Some t)
    with st have "f spec t = Some r" by simp
    then obtain n where "followRefs spec n t = Some r" using ih by blast
    with Some have "followRefs spec (Suc n) s = Some r" by simp
    then show ?thesis ..
  qed
qed

lemma followRefs_past_stop:
  "followRefs spec n s = Some r \<Longrightarrow> lookupSchemaRef spec r = None \<Longrightarrow>
     followRefs spec (Suc n) s = None"
  using followRefs_add [of spec n 1 s] by simp

lemma followRefs_None_returns:
  "followRefs spec n s = None \<Longrightarrow> \<exists>r. resolveSchema spec s = Some r"
proof (induction n arbitrary: s)
  case 0
  then show ?case by simp
next
  case (Suc n)
  show ?case
  proof (cases "lookupSchemaRef spec s")
    case None
    then show ?thesis by (simp add: resolveSchema_stop)
  next
    case (Some t)
    with Suc.prems have "followRefs spec n t = None" by simp
    then obtain r where "resolveSchema spec t = Some r" using Suc.IH by blast
    with Some show ?thesis by (simp add: resolveSchema_step)
  qed
qed

lemma resolveSchema_Some_iff:
  "resolveSchema spec s = Some r \<longleftrightarrow>
     (\<exists>n. followRefs spec n s = Some r \<and> lookupSchemaRef spec r = None)"
proof
  assume a: "resolveSchema spec s = Some r"
  then obtain n where "followRefs spec n s = Some r" using resolveSchema_followRefs by blast
  moreover from a have "lookupSchemaRef spec r = None" by (rule resolveSchema_result)
  ultimately show "\<exists>n. followRefs spec n s = Some r \<and> lookupSchemaRef spec r = None" by blast
next
  assume "\<exists>n. followRefs spec n s = Some r \<and> lookupSchemaRef spec r = None"
  then show "resolveSchema spec s = Some r" using followRefs_resolveSchema by blast
qed

lemma resolveSchema_None_iff:
  "resolveSchema spec s = None \<longleftrightarrow> (\<forall>n. followRefs spec n s \<noteq> None)"
proof
  assume a: "resolveSchema spec s = None"
  show "\<forall>n. followRefs spec n s \<noteq> None"
  proof
    fix n
    show "followRefs spec n s \<noteq> None"
    proof
      assume "followRefs spec n s = None"
      then obtain r where "resolveSchema spec s = Some r" using followRefs_None_returns by blast
      with a show False by simp
    qed
  qed
next
  assume a: "\<forall>n. followRefs spec n s \<noteq> None"
  show "resolveSchema spec s = None"
  proof (cases "resolveSchema spec s")
    case None
    then show ?thesis .
  next
    case (Some r)
    then obtain n where "followRefs spec n s = Some r" "lookupSchemaRef spec r = None"
      using resolveSchema_Some_iff by blast
    then have "followRefs spec (Suc n) s = None" by (rule followRefs_past_stop)
    with a show ?thesis by blast
  qed
qed

lemma followRefs_cycle:
  "followRefs spec (Suc k) s = Some s \<Longrightarrow> followRefs spec n s \<noteq> None"
proof (induction n rule: less_induct)
  case (less n)
  show ?case
  proof (cases "n \<le> Suc k")
    case True
    then have "Suc k = n + (Suc k - n)" by simp
    then have "followRefs spec (n + (Suc k - n)) s = Some s" using less.prems by simp
    then show ?thesis by (cases "followRefs spec n s") (simp_all add: followRefs_add)
  next
    case False
    then have n: "n = Suc k + (n - Suc k)" by simp
    from False have "n - Suc k < n" by simp
    then have "followRefs spec (n - Suc k) s \<noteq> None" using less.prems by (rule less.IH)
    moreover have "followRefs spec (Suc k + (n - Suc k)) s = followRefs spec (n - Suc k) s"
      using less.prems by (simp only: followRefs_add) simp
    ultimately show ?thesis using n by simp
  qed
qed

text \<open>
  Claim C1 as stated fails: the schema \<open>Dangling\<close> is present and is a reference
  to a missing schema, so a reference to \<open>Dangling\<close> resolves to a schema that
  still carries a \<open>$ref\<close>; and a reference to the self-referring schema \<open>Loop\<close>,
  which is present, never returns.
\<close>

theorem resolveSchema_keeps_dangling_ref:
  "schema_ref (refSchema ''#/components/schemas/Dangling'') = Some (schemaPrefix @ ''Dangling'')
   \<and> ownSchema refSpec ''Dangling'' = Some (refSchema ''#/components/schemas/Missing'')
   \<and> resolveSchema (Some refSpec) (refSchema ''#/components/schemas/Dangling'')
        = Some (refSchema ''#/components/schemas/Missing'')
   \<and> schema_ref (refSchema ''#/components/schemas/Missing'') = Some ''#/components/schemas/Missing''
   \<and> schema_ref (refSchema ''#/components/schemas/Loop'') = Some (schemaPrefix @ ''Loop'')
   \<and> ownSchema refSpec ''Loop'' = Some (refSchema ''#/components/schemas/Loop'')
   \<and> resolveSchema (Some refSpec) (refSchema ''#/components/schemas/Loop'') = None"
proof -
  have "resolveSchema (Some refSpec) (refSchema ''#/components/schemas/Dangling'')
        = Some (refSchema ''#/components/schemas/Missing'')"
    by code_simp
  moreover have
    "schema_ref (refSchema ''#/components/schemas/Dangling'') = Some (schemaPrefix @ ''Dangling'')"
    "schema_ref (refSchema ''#/components/schemas/Missing'') = Some ''#/components/schemas/Missing''"
    "schema_ref (refSchema ''#/components/schemas/Loop'') = Some (schemaPrefix @ ''Loop'')"
    by (simp_all add: refSchema_def schemaPrefix_def)
  moreover have
    "ownSchema refSpec ''Dangling'' = Some (refSchema ''#/components/schemas/Missing'')"
    "ownSchema refSpec ''Loop'' = Some (refSchema ''#/components/schemas/Loop'')"
    by (simp_all add: ownSchema_def refSpec_def)
  ultimately show ?thesis
    using resolveSchema_loop by (intro conjI)
qed

text \<open>
  Claim C1, amended. For a schema whose \<open>$ref\<close> names a schema \<open>t\<close> present in
  \<open>spec.components.schemas\<close>, the resolution is the resolution of \<open>t\<close> (it goes
  on through \<open>t\<close>'s own reference). The resolution returns \<open>r\<close> exactly when
  the references lead, after some number of steps, to \<open>r\<close> and the reference
  step of \<open>r\<close> finds nothing; it does not return exactly when the chain of
  references never ends, and so not for a schema on a cycle of references. A
  schema returned has no reference that still resolves (it may keep a \<open>$ref\<close>
  that names nothing), and resolving it again returns it unchanged. A schema
  without \<open>$ref\<close> is returned unchanged.
\<close>

theorem resolveSchema_follows_references:
  "(schema_ref s = Some (schemaPrefix @ name) \<longrightarrow> ownSchema sp name = Some t \<longrightarrow>
      resolveSchema (Some sp) s = resolveSchema (Some sp) t)
   \<and> (resolveSchema spec s = Some r \<longleftrightarrow>
        (\<exists>n. followRefs spec n s = Some r \<and> lookupSchemaRef spec r = None))
   \<and> (resolveSchema spec s = None \<longleftrightarrow> (\<forall>n. followRefs spec n s \<noteq> None))
   \<and> (followRefs spec (Suc k) s = Some s \<longrightarrow> resolveSchema spec s = None)
   \<and> (resolveSchema spec s = Some r \<longrightarrow> resolveSchema spec r = Some r)
   \<and> (schema_ref s = None \<longrightarrow> resolveSchema spec s = Some s)"
proof (intro conjI impI)
  assume "schema_ref s = Some (schemaPrefix @ name)" "ownSchema sp name = Some t"
  then show "resolveSchema (Some sp) s = resolveSchema (Some sp) t"
    by (simp add: resolveSchema_step lookup_wellformed schemaNamed_own)
next
  show "resolveSchema spec s = Some r \<longleftrightarrow>
        (\<exists>n. followRefs spec n s = Some r \<and> lookupSchemaRef spec r = None)"
    by (rule resolveSchema_Some_iff)
next
  show "resolveSchema spec s = None \<longleftrightarrow> (\<forall>n. followRefs spec n s \<noteq> None)"
    by (rule resolveSchema_None_iff)
next
  assume "followRefs spec (Suc k) s = Some s"
  then have "\<forall>n. followRefs spec n s \<noteq> None" using followRefs_cycle by blast
  then show "resolveSchema spec s = None" by (simp add: resolveSchema_None_iff)
next
  assume "resolveSchema spec s = Some r"
  then have "lookupSchemaRef spec r = None" by (rule resolveSchema_result)
  then show "resolveSchema spec r = Some r" by (rule resolveSchema_stop)
next
  assume "schema_ref s = None"
  then show "resolveSchema spec s = Some s"
    by (simp add: resolveSchema_stop lookupSchemaRef_def)
qed

theorem resolveSchema_follows_references_witness:
  "schema_ref (refSchema ''#/components/schemas/Alias'') = Some (schemaPrefix @ ''Alias'')
   \<and> ownSchema refSpec ''Alias'' = Some (refSchema ''#/components/schemas/Pet'')
   \<and> followRefs (Some refSpec) 2 (refSchema ''#/components/schemas/Alias'') = Some petSchema
   \<and> resolveSchema (Some refSpec) (refSchema ''#/components/schemas/Alias'') = Some petSchema
   \<and> resolveSchema (Some refSpec) (refSchema ''#/components/schemas/Alias'')
        = resolveSchema (Some refSpec) (refSchema ''#/components/schemas/Pet'')
   \<and> lookupSchemaRef (Some refSpec) petSchema = None
   \<and> schema_ref petSchema = None
   \<and> resolveSchema (Some refSpec) petSchema = Some petSchema
   \<and> followRefs (Some refSpec) (Suc 0) (refSchema ''#/components/schemas/Loop'')
        = Some (refSchema ''#/components/schemas/Loop'')
   \<and> resolveSchema (Some refSpec) (refSchema ''#/components/schemas/Loop'') = None"
proof -
  have a: "schema_ref (refSchema ''#/components/schemas/Alias'') = Some (schemaPrefix @ ''Alias'')"
    by (simp add: refSchema_def schemaPrefix_def)
  have b: "ownSchema refSpec ''Alias'' = Some (refSchema ''#/components/schemas/Pet'')"
    by (simp add: ownSchema_def refSpec_def)
  have c: "followRefs (Some refSpec) 2 (refSchema ''#/components/schemas/Alias'') = Some petSchema"
    by code_simp
  have d: "lookupSchemaRef (Some refSpec) petSchema = None"
    by (simp add: lookupSchemaRef_def petSchema_def)
  have e: "schema_ref petSchema = None" by (simp add: petSchema_def)
  have f: "followRefs (Some refSpec) (Suc 0) (refSchema ''#/components/schemas/Loop'')
        = Some (refSchema ''#/components/schemas/Loop'')"
    by code_simp
  note t1 = resolveSchema_follows_references
    [where s = "refSchema ''#/components/schemas/Alias''" and name = "''Alias''" and sp = refSpec
       and t = "refSchema ''#/components/schemas/Pet''" and spec = "Some refSpec"
       and r = petSchema]
  note t2 = resolveSchema_follows_references
    [where s = petSchema and spec = "Some refSpec" and r = petSchema]
  note t3 = resolveSchema_follows_references
    [where s = "refSchema ''#/components/schemas/Loop''" and spec = "Some refSpec" and k = 0]
  from t1 c d have 1:
    "resolveSchema (Some refSpec) (refSchema ''#/components/schemas/Alias'') = Some petSchema"
    by blast
  from t1 a b have 2: "resolveSchema (Some refSpec) (refSchema ''#/components/schemas/Alias'')
        = resolveSchema (Some refSpec) (refSchema ''#/components/schemas/Pet'')"
    by blast
  from t2 e have 3: "resolveSchema (Some refSpec) petSchema = Some petSchema" by blast
  from t3 f have 4: "resolveSchema (Some refSpec) (refSchema ''#/components/schemas/Loop'') = None"
    by blast
  from 1 2 3 4 a b c d e f show ?thesis by (intro conjI)
qed

text \<open>
  Claim C2 as stated fails: \<open>resolveRef\<close> returns \<open>undefined\<close>, an absent value,
  for a reference without the prefix and for a name that is missing; the
  reference step of the synthesizer, which does not test the prefix, resolves the
  reference \<open>Pet\<close> to the schema of that name instead of returning the input; and
  for the name \<open>constructor\<close>, of which the map has no entry, \<open>resolveRef\<close>
  returns the member the map inherits under that name.
\<close>

theorem resolveRef_absent_value:
  "\<not> startsWith ''Pet'' schemaPrefix
   \<and> resolveRef refSpec ''Pet'' = None
   \<and> ownSchema refSpec ''Missing'' = None
   \<and> resolveRef refSpec ''#/components/schemas/Missing'' = None
   \<and> resolveSchema (Some refSpec) (refSchema ''Pet'') = Some petSchema
   \<and> petSchema \<noteq> refSchema ''Pet''
   \<and> ownSchema refSpec ''constructor'' = None
   \<and> resolveRef refSpec ''#/components/schemas/constructor''
        = Some (PrototypeMember ''constructor'')"
  by code_simp

text \<open>
  Claim C2, amended. For a reference whose prefix is not
  \<open>#/components/schemas/\<close>, or whose name after the prefix is neither a key of
  \<open>spec.components.schemas\<close> nor the name of a member of \<open>Object.prototype\<close>,
  \<open>resolveRef\<close> returns \<open>undefined\<close> (no error); with the prefix and a name
  that is a key of the map it returns the entry, and in every case with the prefix
  what the read of the map under the rest of the reference gives. The reference
  step of the synthesizer returns the input schema unresolved whenever the name it
  looks up is neither a key of the map nor the name of such a member.
\<close>

theorem resolveRef_unresolved:
  "(\<not> startsWith ref schemaPrefix \<longrightarrow> resolveRef spec ref = None)
   \<and> (startsWith ref schemaPrefix \<longrightarrow>
        ownSchema spec (drop (length schemaPrefix) ref) = None \<longrightarrow>
        drop (length schemaPrefix) ref \<notin> set objectPrototypeKeys \<longrightarrow>
          resolveRef spec ref = None)
   \<and> (startsWith ref schemaPrefix \<longrightarrow>
        ownSchema spec (drop (length schemaPrefix) ref) = Some t \<longrightarrow>
          resolveRef spec ref = Some t)
   \<and> (startsWith ref schemaPrefix \<longrightarrow>
        resolveRef spec ref = schemaNamed spec (drop (length schemaPrefix) ref))
   \<and> (schema_ref s = Some ref \<longrightarrow> ownSchema sp (String_replace ref schemaPrefix []) = None \<longrightarrow>
        String_replace ref schemaPrefix [] \<notin> set objectPrototypeKeys \<longrightarrow>
          resolveSchema (Some sp) s = Some s)"
proof (intro conjI impI)
  assume "\<not> startsWith ref schemaPrefix"
  then show "resolveRef spec ref = None" by (simp add: resolveRef_def)
next
  assume "startsWith ref schemaPrefix" "ownSchema spec (drop (length schemaPrefix) ref) = None"
    "drop (length schemaPrefix) ref \<notin> set objectPrototypeKeys"
  then show "resolveRef spec ref = None"
    by (simp add: resolveRef_def String_replace_startsWith schemaNamed_absent)
next
  assume "startsWith ref schemaPrefix" "ownSchema spec (drop (length schemaPrefix) ref) = Some t"
  then show "resolveRef spec ref = Some t"
    by (simp add: resolveRef_def String_replace_startsWith schemaNamed_own)
next
  assume "startsWith ref schemaPrefix"
  then show "resolveRef spec ref = schemaNamed spec (drop (length schemaPrefix) ref)"
    by (simp add: resolveRef_def String_replace_startsWith)
next
  assume "schema_ref s = Some ref" "ownSchema sp (String_replace ref schemaPrefix []) = None"
    "String_replace ref schemaPrefix [] \<notin> set objectPrototypeKeys"
  then have "lookupSchemaRef (Some sp) s = None"
    by (simp add: lookupSchemaRef_def schemaNamed_absent)
  then show "resolveSchema (Some sp) s = Some s" by (rule resolveSchema_stop)
qed

theorem resolveRef_unresolved_witness:
  "\<not> startsWith ''Pet'' schemaPrefix
   \<and> resolveRef refSpec ''Pet'' = None
   \<and> startsWith ''#/components/schemas/Missing'' schemaPrefix
   \<and> ownSchema refSpec (drop (length schemaPrefix) ''#/components/schemas/Missing'') = None
   \<and> drop (length schemaPrefix) ''#/components/schemas/Missing'' \<notin> set objectPrototypeKeys
   \<and> resolveRef refSpec ''#/components/schemas/Missing'' = None
   \<and> ownSchema refSpec (drop (length schemaPrefix) ''#/components/schemas/Pet'') = Some petSchema
   \<and> resolveRef refSpec ''#/components/schemas/Pet'' = Some petSchema
   \<and> resolveSchema (Some refSpec) (refSchema ''#/components/schemas/Missing'')
        = Some (refSchema ''#/components/schemas/Missing'')"
proof -
  have a: "\<not> startsWith ''Pet'' schemaPrefix" by (simp add: schemaPrefix_def)
  have b: "startsWith ''#/components/schemas/Missing'' schemaPrefix"
    "startsWith ''#/components/schemas/Pet'' schemaPrefix"
    by (simp_all add: schemaPrefix_def)
  have c: "ownSchema refSpec (drop (length schemaPrefix) ''#/components/schemas/Missing'') = None"
    "drop (length schemaPrefix) ''#/components/schemas/Missing'' \<notin> set objectPrototypeKeys"
    by code_simp+
  have d: "ownSchema refSpec (drop (length schemaPrefix) ''#/components/schemas/Pet'')
      = Some petSchema"
    by code_simp
  have e: "schema_ref (refSchema ''#/components/schemas/Missing'')
      = Some ''#/components/schemas/Missing''"
    by (simp add: refSchema_def)
  have f: "ownSchema refSpec (String_replace ''#/components/schemas/Missing'' schemaPrefix [])
      = None"
    "String_replace ''#/components/schemas/Missing'' schemaPrefix [] \<notin> set objectPrototypeKeys"
    by code_simp+
  note t1 = resolveRef_unresolved [where ref = "''Pet''" and spec = refSpec]
  note t2 = resolveRef_unresolved [where ref = "''#/components/schemas/Missing''"
      and spec = refSpec and sp = refSpec and s = "refSchema ''#/components/schemas/Missing''"]
  note t3 = resolveRef_unresolved [where ref = "''#/components/schemas/Pet''"
      and spec = refSpec and t = petSchema]
  from t1 a have 1: "resolveRef refSpec ''Pet'' = None" by blast
  from t2 b c have 2: "resolveRef refSpec ''#/components/schemas/Missing'' = None" by blast
  from t3 b d have 3: "resolveRef refSpec ''#/components/schemas/Pet'' = Some petSchema" by blast
  from t2 e f have 4: "resolveSchema (Some refSpec) (refSchema ''#/components/schemas/Missing'')
        = Some (refSchema ''#/components/schemas/Missing'')"
    by blast
  from 1 2 3 4 a b(1) c d show ?thesis by (intro conjI)
qed

section \<open>Properties of the tag groups\<close>



lemma mapPush_absent: "tag \<notin> fst ` set m \<Longrightarrow> mapPush m tag x = m"
  by (induction m) auto
























section \<open>Properties of URL building\<close>

lemma splitFirst_SomeD:
  "splitFirst pat s = Some (pre, post) \<Longrightarrow> s = pre @ pat @ post"
proof (induction s arbitrary: pre)
  case Nil
  then show ?case by (auto split: if_splits)
next
  case (Cons c cs)
  show ?case
  proof (cases "startsWith (c # cs) pat")
    case True
    then have "splitFirst pat (c # cs) = Some ([], drop (length pat) (c # cs))" by simp
    with Cons.prems have pp: "pre = []" "post = drop (length pat) (c # cs)" by simp_all
    from True obtain rest where r: "c # cs = pat @ rest" by (auto simp: startsWith_iff)
    then have "drop (length pat) (c # cs) = rest" by simp
    with pp r show ?thesis by simp
  next
    case False
    with Cons.prems obtain pre0 where "splitFirst pat cs = Some (pre0, post)" "pre = c # pre0"
      by auto
    with Cons.IH show ?thesis by simp
  qed
qed

lemma splitFirst_minimal:
  "splitFirst pat s = Some (pre, post) \<Longrightarrow> s = pre' @ pat @ post' \<Longrightarrow>
     length pre \<le> length pre'"
proof (induction s arbitrary: pre pre')
  case Nil
  then show ?case by (auto split: if_splits)
next
  case (Cons c cs)
  show ?case
  proof (cases "startsWith (c # cs) pat")
    case True
    then have "splitFirst pat (c # cs) = Some ([], drop (length pat) (c # cs))" by simp
    with Cons.prems(1) have "pre = []" by simp
    then show ?thesis by simp
  next
    case False
    with Cons.prems(1) obtain pre0 where
      p: "splitFirst pat cs = Some (pre0, post)" "pre = c # pre0"
      by auto
    from False Cons.prems(2) have "pre' \<noteq> []" by (auto simp: startsWith_iff)
    with Cons.prems(2) obtain pre0' where q: "pre' = c # pre0'" "cs = pre0' @ pat @ post'"
      by (cases pre') auto
    from Cons.IH [OF p(1) q(2)] p q show ?thesis by simp
  qed
qed

lemma splitFirst_occurs:
  "splitFirst pat (pre @ pat @ post) \<noteq> None"
proof (induction pre)
  case Nil
  then show ?case by (simp add: splitFirst_prefix)
next
  case (Cons c pre)
  then show ?case by auto
qed

text \<open>\<open>splitFirst\<close> finds the first occurrence, and only that.\<close>

lemma splitFirst_first:
  assumes "s = pre @ pat @ post"
    and "\<And>pre' post'. s = pre' @ pat @ post' \<Longrightarrow> length pre \<le> length pre'"
  shows "splitFirst pat s = Some (pre, post)"
proof -
  from assms(1) splitFirst_occurs obtain pre2 post2 where
    sf: "splitFirst pat s = Some (pre2, post2)" by fastforce
  then have eq: "s = pre2 @ pat @ post2" by (rule splitFirst_SomeD)
  from splitFirst_minimal [OF sf assms(1)] assms(2) [OF eq] have "length pre2 = length pre"
    by simp
  with eq assms(1) have "pre2 = pre" "post2 = post" by auto
  with sf show ?thesis by simp
qed

lemma getSubstitution_plain:
  "CHR ''$'' \<notin> set v \<Longrightarrow> getSubstitution matched pre post v = v"
  by (induction matched pre post v rule: getSubstitution.induct) auto

lemma collectQueryParts_eq:
  "collectQueryParts params qs acc =
     acc @ map (\<lambda>p. param_name p @ ''='' @ encodeURIComponent (the (params (param_name p))))
            (filter (\<lambda>p. \<exists>v. params (param_name p) = Some v \<and> v \<noteq> []) qs)"
  by (induction qs arbitrary: acc) (auto split: option.splits)

text \<open>
  The query string: one part \<open>name=value\<close>, the value percent-encoded, for every
  query parameter with a value that is not empty, in the order of the
  parameters, joined by \<open>&\<close> after a \<open>?\<close>; nothing when there is no part.
\<close>

lemma queryStringOf_eq:
  "queryStringOf params qs =
     (let parts =
        map (\<lambda>p. param_name p @ ''='' @ encodeURIComponent (the (params (param_name p))))
          (filter (\<lambda>p. \<exists>v. params (param_name p) = Some v \<and> v \<noteq> []) qs)
      in if parts = [] then [] else ''?'' @ join ''&'' parts)"
  by (simp add: queryStringOf_def collectQueryParts_eq Let_def)

lemma substitutePathParam_value:
  "splitFirst (placeholder p) builtPath = Some (pre, post) \<Longrightarrow>
   params (param_name p) = Some v \<Longrightarrow> v \<noteq> [] \<Longrightarrow>
     substitutePathParam params builtPath p =
       pre @ getSubstitution (placeholder p) pre post v @ post"
  by (simp add: substitutePathParam_def String_replace_def)

text \<open>
  Without a value the placeholder stays; a value without \<open>$\<close> replaces the
  first occurrence as it is.
\<close>

lemma substitutePathParam_absent:
  assumes "params (param_name p) = None \<or> params (param_name p) = Some []"
    and "CHR ''$'' \<notin> set (param_name p)"
  shows "substitutePathParam params builtPath p = builtPath"
proof -
  have d: "CHR ''$'' \<notin> set (placeholder p)" using assms(2) by (simp add: placeholder_def)
  have "String_replace builtPath (placeholder p) (placeholder p) = builtPath"
  proof (cases "splitFirst (placeholder p) builtPath")
    case None
    then show ?thesis by (simp add: String_replace_def)
  next
    case (Some a)
    obtain pre post where a: "a = (pre, post)" by (cases a)
    with Some have "builtPath = pre @ placeholder p @ post" by (simp add: splitFirst_SomeD)
    with Some a d show ?thesis by (simp add: String_replace_def getSubstitution_plain)
  qed
  with assms(1) show ?thesis by (auto simp: substitutePathParam_def)
qed

lemma substitutePathParam_plain_value:
  "splitFirst (placeholder p) builtPath = Some (pre, post) \<Longrightarrow>
   params (param_name p) = Some v \<Longrightarrow> v \<noteq> [] \<Longrightarrow> CHR ''$'' \<notin> set v \<Longrightarrow>
     substitutePathParam params builtPath p = pre @ v @ post"
  by (simp add: substitutePathParam_value getSubstitution_plain)

text \<open>
  Claim C8, at the path \<open>/markets/{id}\<close> with the path parameter \<open>id\<close>: the user
  value \<open>A$$B\<close> appears in the URL as \<open>A$B\<close>, and with the user value \<open>$&\<close>
  the placeholder is still there, because \<open>String.prototype.replace\<close> expands
  \<open>$$\<close> and \<open>$&\<close> in the replacement text. The value \<open>42\<close> is substituted as it
  is, a missing value leaves the placeholder, and the query values
  \<open>{a: "1", b: ""}\<close> give \<open>?a=1\<close>.
\<close>

theorem buildUrl_expands_dollar_patterns:
  "buildUrl (Some marketSpec)
     (parametersEndpoint ''/markets/{id}'' [pathParameter ''id'']) [''id'' \<mapsto> ''A$$B'']
     = ''https://api.example.com/markets/A$B''
   \<and> buildUrl (Some marketSpec)
       (parametersEndpoint ''/markets/{id}'' [pathParameter ''id'']) [''id'' \<mapsto> ''$&'']
     = ''https://api.example.com/markets/{id}''
   \<and> buildUrl (Some marketSpec)
       (parametersEndpoint ''/markets/{id}'' [pathParameter ''id'']) [''id'' \<mapsto> ''42'']
     = ''https://api.example.com/markets/42''
   \<and> buildUrl (Some marketSpec)
       (parametersEndpoint ''/markets/{id}'' [pathParameter ''id'']) Map.empty
     = ''https://api.example.com/markets/{id}''
   \<and> queryStringOf [''a'' \<mapsto> ''1'', ''b'' \<mapsto> []] [queryParameter ''a'', queryParameter ''b'']
     = ''?a=1''"
  by code_simp

lemma substitutePathParams_foldl:
  "substitutePathParams params ps builtPath = foldl (substitutePathParam params) builtPath ps"
  by (induction ps arbitrary: builtPath) auto

text \<open>
  Claim C10 as stated fails: when the parameter is declared twice (here once by
  reference and once in place) the loop substitutes twice, and the second
  occurrence of the placeholder is replaced as well.
\<close>

theorem duplicate_parameter_replaces_again:
  "pathParamsOf (Some marketSpec)
     (parametersEndpoint ''/a/{id}/b/{id}''
        [refParameter ''#/components/parameters/Id'', pathParameter ''id''])
     = [pathParameter ''id'', pathParameter ''id'']
   \<and> buildUrl (Some marketSpec)
       (parametersEndpoint ''/a/{id}/b/{id}''
          [refParameter ''#/components/parameters/Id'', pathParameter ''id''])
       [''id'' \<mapsto> ''42'']
     = ''https://api.example.com/a/42/b/42''"
  by code_simp

text \<open>
  Claim C10, amended. The built path is the path template after one
  substitution step per resolved path parameter, in their order. \<open>splitFirst\<close>
  gives the first occurrence of the placeholder: the text before it and the text
  after it. One substitution step with a user value replaces that occurrence only
  and leaves the text after it, with every later occurrence, as it is. When the
  parameter is the only resolved path parameter of the endpoint, the built URL is
  the base URL, the text before the first occurrence, the substituted value, the
  unchanged text after it and the query string. The substituted value is the user
  value itself when it has no \<open>$\<close>.
\<close>

theorem substitution_replaces_first_occurrence:
  "buildUrl spec endpoint params =
     baseUrlOf spec
     @ foldl (substitutePathParam params) (ep_path endpoint) (pathParamsOf spec endpoint)
     @ queryStringOf params (queryParamsOf spec endpoint)
   \<and> (splitFirst (placeholder p) builtPath = Some (pre, post) \<longrightarrow>
      builtPath = pre @ placeholder p @ post
      \<and> (\<forall>pre' post'. builtPath = pre' @ placeholder p @ post' \<longrightarrow> length pre \<le> length pre'))
   \<and> (splitFirst (placeholder p) builtPath = Some (pre, post) \<longrightarrow>
        params (param_name p) = Some v \<longrightarrow> v \<noteq> [] \<longrightarrow>
        substitutePathParam params builtPath p =
          pre @ getSubstitution (placeholder p) pre post v @ post)
   \<and> (splitFirst (placeholder p) (ep_path endpoint) = Some (pre, post) \<longrightarrow>
        pathParamsOf spec endpoint = [p] \<longrightarrow>
        params (param_name p) = Some v \<longrightarrow> v \<noteq> [] \<longrightarrow>
        buildUrl spec endpoint params =
          baseUrlOf spec @ pre @ getSubstitution (placeholder p) pre post v @ post
          @ queryStringOf params (queryParamsOf spec endpoint))
   \<and> (CHR ''$'' \<notin> set v \<longrightarrow> getSubstitution (placeholder p) pre post v = v)"
proof (intro conjI impI allI)
  show "buildUrl spec endpoint params =
     baseUrlOf spec
     @ foldl (substitutePathParam params) (ep_path endpoint) (pathParamsOf spec endpoint)
     @ queryStringOf params (queryParamsOf spec endpoint)"
    by (simp add: buildUrl_def Let_def substitutePathParams_foldl)
next
  assume "splitFirst (placeholder p) builtPath = Some (pre, post)"
  then show "builtPath = pre @ placeholder p @ post" by (rule splitFirst_SomeD)
next
  fix pre' post'
  assume "splitFirst (placeholder p) builtPath = Some (pre, post)"
    "builtPath = pre' @ placeholder p @ post'"
  then show "length pre \<le> length pre'" by (rule splitFirst_minimal)
next
  assume "splitFirst (placeholder p) builtPath = Some (pre, post)"
    "params (param_name p) = Some v" "v \<noteq> []"
  then show "substitutePathParam params builtPath p =
          pre @ getSubstitution (placeholder p) pre post v @ post"
    by (rule substitutePathParam_value)
next
  assume "splitFirst (placeholder p) (ep_path endpoint) = Some (pre, post)"
    "pathParamsOf spec endpoint = [p]" "params (param_name p) = Some v" "v \<noteq> []"
  then show "buildUrl spec endpoint params =
          baseUrlOf spec @ pre @ getSubstitution (placeholder p) pre post v @ post
          @ queryStringOf params (queryParamsOf spec endpoint)"
    by (simp add: buildUrl_def Let_def substitutePathParam_value)
next
  assume "CHR ''$'' \<notin> set v"
  then show "getSubstitution (placeholder p) pre post v = v" by (rule getSubstitution_plain)
qed

theorem substitution_replaces_first_occurrence_witness:
  "splitFirst (placeholder (pathParameter ''id'')) ''/a/{id}/b/{id}'' = Some (''/a/'', ''/b/{id}'')
   \<and> pathParamsOf (Some marketSpec)
        (parametersEndpoint ''/a/{id}/b/{id}'' [refParameter ''#/components/parameters/Id''])
        = [pathParameter ''id'']
   \<and> substitutePathParam [''id'' \<mapsto> ''42''] ''/a/{id}/b/{id}'' (pathParameter ''id'')
        = ''/a/42/b/{id}''
   \<and> buildUrl (Some marketSpec)
        (parametersEndpoint ''/a/{id}/b/{id}'' [refParameter ''#/components/parameters/Id''])
        [''id'' \<mapsto> ''42'']
        = ''https://api.example.com/a/42/b/{id}''"
proof -
  have a: "splitFirst (placeholder (pathParameter ''id'')) ''/a/{id}/b/{id}''
      = Some (''/a/'', ''/b/{id}'')"
    by code_simp
  have b: "pathParamsOf (Some marketSpec)
        (parametersEndpoint ''/a/{id}/b/{id}'' [refParameter ''#/components/parameters/Id''])
        = [pathParameter ''id'']"
    by code_simp
  have c: "[''id'' \<mapsto> ''42''] (param_name (pathParameter ''id'')) = Some ''42''" "''42'' \<noteq> []"
    "CHR ''$'' \<notin> set ''42''"
    by (simp_all add: pathParameter_def)
  have d: "ep_path (parametersEndpoint ''/a/{id}/b/{id}''
        [refParameter ''#/components/parameters/Id'']) = ''/a/{id}/b/{id}''"
    by (simp add: parametersEndpoint_def)
  have e: "baseUrlOf (Some marketSpec) = ''https://api.example.com''"
    "queryStringOf [''id'' \<mapsto> ''42''] (queryParamsOf (Some marketSpec)
        (parametersEndpoint ''/a/{id}/b/{id}'' [refParameter ''#/components/parameters/Id''])) = []"
    by code_simp+
  note t = substitution_replaces_first_occurrence
    [where p = "pathParameter ''id''" and builtPath = "''/a/{id}/b/{id}''" and pre = "''/a/''"
       and post = "''/b/{id}''" and params = "[''id'' \<mapsto> ''42'']" and v = "''42''"
       and endpoint = "parametersEndpoint ''/a/{id}/b/{id}''
          [refParameter ''#/components/parameters/Id'']"
       and spec = "Some marketSpec"]
  from t a c have g:
    "getSubstitution (placeholder (pathParameter ''id'')) ''/a/'' ''/b/{id}'' ''42'' = ''42''"
    by blast
  from t a c have 1:
    "substitutePathParam [''id'' \<mapsto> ''42''] ''/a/{id}/b/{id}'' (pathParameter ''id'')
        = ''/a/'' @ getSubstitution (placeholder (pathParameter ''id'')) ''/a/'' ''/b/{id}'' ''42''
          @ ''/b/{id}''"
    by blast
  have a2: "splitFirst (placeholder (pathParameter ''id''))
      (ep_path (parametersEndpoint ''/a/{id}/b/{id}'' [refParameter ''#/components/parameters/Id'']))
      = Some (''/a/'', ''/b/{id}'')"
    by (simp only: d a)
  from t a2 b c have 2: "buildUrl (Some marketSpec)
        (parametersEndpoint ''/a/{id}/b/{id}'' [refParameter ''#/components/parameters/Id''])
        [''id'' \<mapsto> ''42'']
        = baseUrlOf (Some marketSpec) @ ''/a/''
          @ getSubstitution (placeholder (pathParameter ''id'')) ''/a/'' ''/b/{id}'' ''42''
          @ ''/b/{id}''
          @ queryStringOf [''id'' \<mapsto> ''42''] (queryParamsOf (Some marketSpec)
              (parametersEndpoint ''/a/{id}/b/{id}'' [refParameter ''#/components/parameters/Id'']))"
    by blast
  have 3: "substitutePathParam [''id'' \<mapsto> ''42''] ''/a/{id}/b/{id}'' (pathParameter ''id'')
        = ''/a/42/b/{id}''"
    by (simp only: 1 g) simp
  have 4: "buildUrl (Some marketSpec)
        (parametersEndpoint ''/a/{id}/b/{id}'' [refParameter ''#/components/parameters/Id''])
        [''id'' \<mapsto> ''42'']
        = ''https://api.example.com/a/42/b/{id}''"
    by (simp only: 2 g e) simp
  from a b 3 4 show ?thesis by (intro conjI)
qed

end
